theory Spec2Isabelle
  imports Complex_Main "HOL-Library.Word"
begin

unbundle bit_operations_syntax

section \<open>SIYI protocol engine (siyi\_protocol.py)\<close>

text \<open>
  Python \<open>bytes\<close> values are lists of 8-bit words; Python integers are \<open>int\<close>.
  The only exception the protocol engine can raise is \<open>struct.error\<close>.
\<close>

type_synonym byte = "8 word"

datatype py_error = StructError

text \<open>Class constants of \<open>SIYIProtocol\<close> and the command ids of \<open>Commands\<close>.\<close>

definition STX :: int where "STX = 0x6655"
definition CTRL_NEED_ACK :: int where "CTRL_NEED_ACK = 0x00"
definition CTRL_ACK_PACK :: int where "CTRL_ACK_PACK = 0x01"

definition HEARTBEAT :: int where "HEARTBEAT = 0x00"
definition GIMBAL_ROTATION :: int where "GIMBAL_ROTATION = 0x07"
definition CENTER :: int where "CENTER = 0x08"

text \<open>The instance state of \<open>SIYIProtocol\<close>: the frame sequence counter.\<close>

record SIYIProtocol =
  sequence :: int

definition SIYIProtocol_init :: SIYIProtocol where
  "SIYIProtocol_init = \<lparr>sequence = 0\<rparr>"

subsection \<open>Python slices and \<open>struct\<close>\<close>

text \<open>
  \<open>xs[a:b]\<close>: a negative bound counts from the end, and both bounds are clamped
  to the list.
\<close>

definition slice_bound :: "int \<Rightarrow> int \<Rightarrow> int" where
  "slice_bound n i = (if i < 0 then max 0 (n + i) else min n i)"

definition slice :: "'a list \<Rightarrow> int \<Rightarrow> int \<Rightarrow> 'a list" where
  "slice xs a b =
     (let n = int (length xs); lo = slice_bound n a; hi = slice_bound n b
      in take (nat (hi - lo)) (drop (nat lo) xs))"

text \<open>
  \<open>struct.pack\<close> for the formats \<open>B\<close> and \<open><H\<close>: a value outside the range of
  the format raises \<open>struct.error\<close>.
\<close>

definition pack_B :: "int \<Rightarrow> py_error + byte list" where
  "pack_B n = (if 0 \<le> n \<and> n \<le> 255 then Inr [word_of_int n] else Inl StructError)"

definition pack_H :: "int \<Rightarrow> py_error + byte list" where
  "pack_H n =
     (if 0 \<le> n \<and> n \<le> 65535
      then Inr [word_of_int (n mod 256), word_of_int (n div 256)]
      else Inl StructError)"

text \<open>\<open>struct.pack('<HBHHB', a, b, c, d, e)\<close>: the fields in order, no padding.\<close>

definition pack_HBHHB :: "int \<Rightarrow> int \<Rightarrow> int \<Rightarrow> int \<Rightarrow> int \<Rightarrow> py_error + byte list" where
  "pack_HBHHB a b c d e =
     (case (pack_H a, pack_B b, pack_H c, pack_H d, pack_B e) of
        (Inr ba, Inr bb, Inr bc, Inr bd, Inr be) \<Rightarrow> Inr (ba @ bb @ bc @ bd @ be)
      | _ \<Rightarrow> Inl StructError)"

text \<open>
  \<open>struct.unpack\<close> raises \<open>struct.error\<close> unless the buffer has exactly the size
  of the format.
\<close>

definition unpack_H :: "byte list \<Rightarrow> py_error + int" where
  "unpack_H bs =
     (case bs of [b0, b1] \<Rightarrow> Inr (uint b0 + 256 * uint b1) | _ \<Rightarrow> Inl StructError)"

definition unpack_HBHHB :: "byte list \<Rightarrow> py_error + (int \<times> int \<times> int \<times> int \<times> int)" where
  "unpack_HBHHB bs =
     (case bs of
        [b0, b1, b2, b3, b4, b5, b6, b7] \<Rightarrow>
          Inr (uint b0 + 256 * uint b1, uint b2, uint b3 + 256 * uint b4,
               uint b5 + 256 * uint b6, uint b7)
      | _ \<Rightarrow> Inl StructError)"

subsection \<open>CRC-16\<close>

text \<open>
  One round of the inner loop of \<open>_calculate_crc16\<close>: shift left, conditionally
  xor the polynomial, mask to 16 bits.
\<close>

definition crc_round :: "int \<Rightarrow> int" where
  "crc_round crc =
     (if crc AND 0x8000 \<noteq> 0 then (push_bit 1 crc) XOR 0x1021 else push_bit 1 crc) AND 0xFFFF"

text \<open>The body of the outer loop: xor the byte into the high half, then 8 rounds.\<close>

definition crc_update :: "int \<Rightarrow> byte \<Rightarrow> int" where
  "crc_update crc b = (crc_round ^^ 8) (crc XOR push_bit 8 (uint b))"

definition calculate_crc16 :: "byte list \<Rightarrow> int" where
  "calculate_crc16 data = foldl crc_update 0 data"

subsection \<open>Building and parsing packets\<close>

definition get_next_sequence :: "SIYIProtocol \<Rightarrow> int \<times> SIYIProtocol" where
  "get_next_sequence self =
     (sequence self, self\<lparr>sequence := (sequence self + 1) mod 65536\<rparr>)"

text \<open>
  \<open>build_packet\<close> takes the sequence number before it packs the header, so the
  counter has advanced also when \<open>struct.pack\<close> raises.
\<close>

definition build_packet ::
  "SIYIProtocol \<Rightarrow> int \<Rightarrow> byte list \<Rightarrow> bool \<Rightarrow> (py_error + byte list) \<times> SIYIProtocol" where
  "build_packet self cmd_id data need_ack =
     (let ctrl = (if need_ack then CTRL_NEED_ACK else CTRL_ACK_PACK);
          data_len = int (length data);
          (seq, self') = get_next_sequence self
      in case pack_HBHHB STX ctrl data_len seq cmd_id of
           Inl err \<Rightarrow> (Inl err, self')
         | Inr header \<Rightarrow>
             (let packet = header @ data;
                  crc16 = calculate_crc16 packet
              in (case pack_H crc16 of
                    Inl err \<Rightarrow> (Inl err, self')
                  | Inr trailer \<Rightarrow> (Inr (packet @ trailer), self'))))"

text \<open>The dictionary that \<open>parse_packet\<close> returns.\<close>

record parsed =
  ctrl :: int
  data_len :: int
  seq :: int
  cmd_id :: int
  data :: "byte list"
  crc16 :: int

text \<open>
  \<open>parse_packet\<close> returns \<open>None\<close> for an invalid packet. The first
  \<open>struct.unpack\<close> is inside a \<open>try\<close>; the second is not, so a
  \<open>struct.error\<close> there would leave the function as an exception.
\<close>

definition parse_packet :: "byte list \<Rightarrow> py_error + parsed option" where
  "parse_packet packet =
     (if length packet < 10 then Inr None
      else case unpack_HBHHB (slice packet 0 8) of
        Inl err \<Rightarrow> Inr None
      | Inr (stx, ctrl', data_len', seq', cmd_id') \<Rightarrow>
          (if stx \<noteq> STX then Inr None
           else
             (let expected_len = 8 + data_len' + 2 in
              if int (length packet) < expected_len then Inr None
              else
                (let data' = slice packet 8 (8 + data_len') in
                 (case unpack_H (slice packet (8 + data_len') (8 + data_len' + 2)) of
                    Inl err \<Rightarrow> Inl err
                  | Inr received_crc16 \<Rightarrow>
                      (let calculated_crc16 = calculate_crc16 (slice packet 0 (8 + data_len')) in
                       if received_crc16 \<noteq> calculated_crc16 then Inr None
                       else Inr (Some \<lparr>ctrl = ctrl', data_len = data_len', seq = seq',
                                       cmd_id = cmd_id', data = data',
                                       crc16 = received_crc16\<rparr>)))))))"

subsection \<open>Reading fields of a byte string\<close>

text \<open>
  The byte at offset \<open>i\<close>, and the unsigned little-endian 16-bit value at offsets
  \<open>i\<close> and \<open>i + 1\<close>, as the wire format of the protocol lays the fields out.
\<close>

definition field_u8 :: "byte list \<Rightarrow> nat \<Rightarrow> int" where
  "field_u8 p i = uint (p ! i)"

definition field_u16 :: "byte list \<Rightarrow> nat \<Rightarrow> int" where
  "field_u16 p i = uint (p ! i) + 256 * uint (p ! (i + 1))"


text \<open>
  The two bytes of an unsigned 16-bit value, low byte first, and the eight header bytes
  of a packet with a given control flag, payload length, sequence number and command id.
\<close>

definition le16 :: "int \<Rightarrow> byte list" where
  "le16 n = [word_of_int (n mod 256), word_of_int (n div 256)]"

definition header_bytes :: "bool \<Rightarrow> int \<Rightarrow> int \<Rightarrow> int \<Rightarrow> byte list" where
  "header_bytes need_ack n sq c =
     [0x55, 0x66, (if need_ack then 0 else 1)] @ le16 n @ le16 sq @ [word_of_int c]"

subsection \<open>The parser as the specification words it\<close>

text \<open>
  A byte string is malformed when it is shorter than 10 bytes, or its start marker is not
  0x6655, or the declared payload length exceeds the bytes available, or the CRC-16
  recomputed over header and payload disagrees with the checksum that follows the
  payload. \<open>packet_fields\<close> reads the fields of a packet at their offsets.
\<close>

definition malformed :: "byte list \<Rightarrow> bool" where
  "malformed p \<longleftrightarrow>
     length p < 10
     \<or> field_u16 p 0 \<noteq> 0x6655
     \<or> int (length p) < 8 + field_u16 p 3 + 2
     \<or> calculate_crc16 (take (8 + nat (field_u16 p 3)) p) \<noteq> field_u16 p (8 + nat (field_u16 p 3))"

definition packet_fields :: "byte list \<Rightarrow> parsed" where
  "packet_fields p =
     \<lparr>ctrl = field_u8 p 2, data_len = field_u16 p 3, seq = field_u16 p 5,
      cmd_id = field_u8 p 7, data = take (nat (field_u16 p 3)) (drop 8 p),
      crc16 = field_u16 p (8 + nat (field_u16 p 3))\<rparr>"

subsection \<open>Consecutive builds on one session\<close>

text \<open>
  A run of \<open>build_packet\<close> calls on one \<open>SIYIProtocol\<close> object, each with its
  command id, payload and acknowledgement flag; the results are kept in call order.
\<close>

fun consecutive_builds ::
  "SIYIProtocol \<Rightarrow> (int \<times> byte list \<times> bool) list \<Rightarrow> (py_error + byte list) list \<times> SIYIProtocol" where
  "consecutive_builds self [] = ([], self)"
| "consecutive_builds self ((c, d, na) # reqs) =
     (let (r, self') = build_packet self c d na;
          (rs, self'') = consecutive_builds self' reqs
      in (r # rs, self''))"

subsection \<open>Corrupting one bit\<close>

text \<open>
  Bit \<open>i\<close> of a byte string is bit \<open>i mod 8\<close> of the byte at offset \<open>i div 8\<close>;
  \<open>flip_packet_bit\<close> inverts it and leaves every other bit.
\<close>

definition flip_packet_bit :: "byte list \<Rightarrow> nat \<Rightarrow> byte list" where
  "flip_packet_bit bs i = bs[i div 8 := (bs ! (i div 8)) XOR push_bit (i mod 8) 1]"
section \<open>PID axis controller (utils/pid.py)\<close>

text \<open>
  Gains, errors and times are Python numbers; they are modelled as reals. The reading
  of \<open>time.time()\<close> that \<open>update\<close> takes is an argument of the model.
\<close>

record PIDController =
  kp :: real
  ki :: real
  kd :: real
  min_out :: real
  max_out :: real
  prev_error :: real
  integral :: real
  last_time :: "real option"

definition PIDController_init :: "real \<Rightarrow> real \<Rightarrow> real \<Rightarrow> real \<times> real \<Rightarrow> PIDController" where
  "PIDController_init kp' ki' kd' output_limits =
     \<lparr>kp = kp', ki = ki', kd = kd', min_out = fst output_limits, max_out = snd output_limits,
      prev_error = 0, integral = 0, last_time = None\<rparr>"

text \<open>The elapsed time that \<open>update\<close> measures: 0 when there is no previous call.\<close>

definition PID_dt :: "PIDController \<Rightarrow> real \<Rightarrow> real" where
  "PID_dt self current_time =
     (case last_time self of None \<Rightarrow> 0.0 | Some t \<Rightarrow> current_time - t)"

definition PID_d_term :: "PIDController \<Rightarrow> real \<Rightarrow> real \<Rightarrow> real" where
  "PID_d_term self dt error = (if dt > 0 then kd self * (error - prev_error self) / dt else 0)"

definition PID_update :: "PIDController \<Rightarrow> real \<Rightarrow> real \<Rightarrow> real \<times> PIDController" where
  "PID_update self current_time error =
     (let dt = PID_dt self current_time;
          self1 = self\<lparr>last_time := Some current_time\<rparr>;
          p_term = kp self1 * error;
          self2 = self1\<lparr>integral := integral self1 + error * dt\<rparr>;
          i_term = ki self2 * integral self2;
          d_term = PID_d_term self2 dt error;
          self3 = self2\<lparr>prev_error := error\<rparr>;
          output = p_term + i_term + d_term
      in (max (min output (max_out self3)) (min_out self3), self3))"

definition PID_reset :: "PIDController \<Rightarrow> PIDController" where
  "PID_reset self = self\<lparr>prev_error := 0, integral := 0, last_time := None\<rparr>"

section \<open>Device link (siyi\_connection.py) and command facade (siyi\_gimbal.py)\<close>

text \<open>
  The TCP socket is outside the program: it is modelled by the list of byte strings
  handed to \<open>sendall\<close>, oldest first, and a flag saying that the peer is gone, in
  which case \<open>sendall\<close> raises. Console output is not modelled.
\<close>

record tcp_socket =
  sent :: "byte list list"
  peer_gone :: bool

record SIYIConnection =
  protocol :: SIYIProtocol
  socket :: "tcp_socket option"
  conn_connected :: bool

definition SIYIConnection_init :: SIYIConnection where
  "SIYIConnection_init = \<lparr>protocol = SIYIProtocol_init, socket = None, conn_connected = False\<rparr>"

text \<open>
  \<open>send_packet\<close>: the guard comes first; inside the \<open>try\<close>, an exception of
  \<open>build_packet\<close> or of \<open>sendall\<close> makes the result \<open>False\<close>.
\<close>

definition send_packet ::
  "SIYIConnection \<Rightarrow> int \<Rightarrow> byte list \<Rightarrow> bool \<Rightarrow> bool \<times> SIYIConnection" where
  "send_packet self cmd data' need_ack =
     (if \<not> conn_connected self \<or> socket self = None then (False, self)
      else case socket self of
        None \<Rightarrow> (False, self)
      | Some sock \<Rightarrow>
          (let (built, proto') = build_packet (protocol self) cmd data' need_ack;
               self' = self\<lparr>protocol := proto'\<rparr>
           in (case built of
                 Inl err \<Rightarrow> (False, self')
               | Inr packet \<Rightarrow>
                   if peer_gone sock then (False, self')
                   else (True, self'\<lparr>socket := Some (sock\<lparr>sent := sent sock @ [packet]\<rparr>)\<rparr>))))"

text \<open>\<open>struct.pack('bb', yaw, pitch)\<close>: two signed bytes.\<close>

definition pack_bb :: "int \<Rightarrow> int \<Rightarrow> py_error + byte list" where
  "pack_bb a b =
     (if - 128 \<le> a \<and> a \<le> 127 \<and> - 128 \<le> b \<and> b \<le> 127
      then Inr [word_of_int a, word_of_int b] else Inl StructError)"

text \<open>
  \<open>SIYIGimbal.center\<close> and \<open>SIYIGimbal.rotate\<close>, which \<open>SIYISDK.center_gimbal\<close>
  and \<open>SIYISDK.rotate_gimbal\<close> forward to. After the clamp to -100..100 the two
  speeds always fit a signed byte.
\<close>

definition center_gimbal :: "SIYIConnection \<Rightarrow> bool \<times> SIYIConnection" where
  "center_gimbal conn = send_packet conn CENTER [0x01] False"

definition rotate_gimbal :: "SIYIConnection \<Rightarrow> int \<Rightarrow> int \<Rightarrow> (py_error + bool) \<times> SIYIConnection" where
  "rotate_gimbal conn yaw pitch =
     (let yaw' = max (- 100) (min 100 yaw);
          pitch' = max (- 100) (min 100 pitch)
      in (case pack_bb yaw' pitch' of
            Inl err \<Rightarrow> (Inl err, conn)
          | Inr data' \<Rightarrow>
              (let (result, conn') = send_packet conn GIMBAL_ROTATION data' False
               in (Inr result, conn'))))"

section \<open>Gimbal controller (hardware/gimbal.py)\<close>

text \<open>
  \<open>GimbalController\<close> owns the SDK object (whose modules share one connection), the
  two PID controllers, the deadzone, the throttle interval with the time of the last
  command, and its own \<open>connected\<close> flag.
\<close>

record GimbalController =
  sdk :: SIYIConnection
  pid_yaw :: PIDController
  pid_pitch :: PIDController
  deadzone :: real
  move_interval :: real
  last_move_time :: real
  gc_connected :: bool

text \<open>
  The constructor reads the gains from the configuration; \<open>gimbal.deadzone\<close> and
  \<open>gimbal.move_interval\<close> default to 20 and 0.05 when the configuration has no
  such key. Both PID controllers get the default output limits (-100, 100).
\<close>

definition GimbalController_init ::
  "real \<times> real \<times> real \<Rightarrow> real \<times> real \<times> real \<Rightarrow> real option \<Rightarrow> real option \<Rightarrow> GimbalController" where
  "GimbalController_init yaw_gains pitch_gains cfg_deadzone cfg_move_interval =
     \<lparr>sdk = SIYIConnection_init,
      pid_yaw = (case yaw_gains of (p, i, d) \<Rightarrow> PIDController_init p i d (- 100, 100)),
      pid_pitch = (case pitch_gains of (p, i, d) \<Rightarrow> PIDController_init p i d (- 100, 100)),
      deadzone = (case cfg_deadzone of None \<Rightarrow> 20 | Some v \<Rightarrow> v),
      move_interval = (case cfg_move_interval of None \<Rightarrow> 0.05 | Some v \<Rightarrow> v),
      last_move_time = 0,
      gc_connected = False\<rparr>"

text \<open>Python's \<open>int(x)\<close> on a float truncates towards zero.\<close>

definition py_int :: "real \<Rightarrow> int" where
  "py_int x = (if 0 \<le> x then \<lfloor>x\<rfloor> else \<lceil>x\<rceil>)"

definition gimbal_center :: "GimbalController \<Rightarrow> GimbalController" where
  "gimbal_center self =
     (if \<not> gc_connected self then self
      else
        (let (result, sdk') = center_gimbal (sdk self)
         in self\<lparr>sdk := sdk', pid_yaw := PID_reset (pid_yaw self),
                 pid_pitch := PID_reset (pid_pitch self)\<rparr>))"

definition gimbal_stop :: "GimbalController \<Rightarrow> (py_error + unit) \<times> GimbalController" where
  "gimbal_stop self =
     (if \<not> gc_connected self then (Inr (), self)
      else
        (let (result, sdk') = rotate_gimbal (sdk self) 0 0
         in (case result of
               Inl err \<Rightarrow> (Inl err, self\<lparr>sdk := sdk'\<rparr>)
             | Inr sent_ok \<Rightarrow> (Inr (), self\<lparr>sdk := sdk'\<rparr>))))"

definition move_gimbal ::
  "GimbalController \<Rightarrow> int \<Rightarrow> int \<Rightarrow> (py_error + bool) \<times> GimbalController" where
  "move_gimbal self yaw_speed pitch_speed =
     (if \<not> gc_connected self then (Inr False, self)
      else
        (let (result, sdk') = rotate_gimbal (sdk self) yaw_speed pitch_speed
         in (result, self\<lparr>sdk := sdk'\<rparr>)))"

text \<open>
  The yaw and the pitch part of \<open>update_tracking\<close>: outside the deadzone the speed
  is the truncated PID output, inside it the speed is 0 and the PID is reset. The pitch
  PID is fed the negated error. Each takes the clock reading its PID update would see.
\<close>

definition yaw_control :: "GimbalController \<Rightarrow> real \<Rightarrow> real \<Rightarrow> int \<times> GimbalController" where
  "yaw_control self t error_x =
     (if \<bar>error_x\<bar> > deadzone self
      then (let (out, pid') = PID_update (pid_yaw self) t error_x
            in (py_int out, self\<lparr>pid_yaw := pid'\<rparr>))
      else (0, self\<lparr>pid_yaw := PID_reset (pid_yaw self)\<rparr>))"

definition pitch_control :: "GimbalController \<Rightarrow> real \<Rightarrow> real \<Rightarrow> int \<times> GimbalController" where
  "pitch_control self t error_y =
     (if \<bar>error_y\<bar> > deadzone self
      then (let (out, pid') = PID_update (pid_pitch self) t (- error_y)
            in (py_int out, self\<lparr>pid_pitch := pid'\<rparr>))
      else (0, self\<lparr>pid_pitch := PID_reset (pid_pitch self)\<rparr>))"

text \<open>
  \<open>update_tracking\<close> returns nothing when the controller is not connected, and the
  pair of speeds otherwise. \<open>t_yaw\<close>, \<open>t_pitch\<close> and \<open>now\<close> are the readings of
  \<open>time.time()\<close> at its three call sites, in order.
\<close>

definition update_tracking ::
  "GimbalController \<Rightarrow> real \<Rightarrow> real \<Rightarrow> real \<Rightarrow> real \<Rightarrow> real
     \<Rightarrow> (py_error + (int \<times> int) option) \<times> GimbalController" where
  "update_tracking self t_yaw t_pitch now error_x error_y =
     (if \<not> gc_connected self then (Inr None, self)
      else
        (let (yaw_speed, self1) = yaw_control self t_yaw error_x;
             (pitch_speed, self2) = pitch_control self1 t_pitch error_y
         in if now - last_move_time self2 > move_interval self2
            then
              (if yaw_speed \<noteq> 0 \<or> pitch_speed \<noteq> 0
               then
                 (let (result, sdk') = rotate_gimbal (sdk self2) yaw_speed pitch_speed
                  in (case result of
                        Inl err \<Rightarrow> (Inl err, self2\<lparr>sdk := sdk'\<rparr>)
                      | Inr sent_ok \<Rightarrow>
                          (Inr (Some (yaw_speed, pitch_speed)),
                           self2\<lparr>sdk := sdk', last_move_time := now\<rparr>)))
               else
                 (let (result, self3) = gimbal_stop self2
                  in (case result of
                        Inl err \<Rightarrow> (Inl err, self3)
                      | Inr u \<Rightarrow>
                          (Inr (Some (yaw_speed, pitch_speed)),
                           self3\<lparr>last_move_time := now\<rparr>))))
            else (Inr (Some (yaw_speed, pitch_speed)), self2)))"

text \<open>
  Consecutive \<open>update_tracking\<close> calls, as the control loop makes them: each step
  carries its three clock readings and the two pixel errors.
\<close>

definition tracking_steps ::
  "GimbalController \<Rightarrow> (real \<times> real \<times> real \<times> real \<times> real) list \<Rightarrow> GimbalController" where
  "tracking_steps self steps =
     foldl (\<lambda>g (t_yaw, t_pitch, now, error_x, error_y).
              snd (update_tracking g t_yaw t_pitch now error_x error_y)) self steps"

text \<open>The pixel errors of a step.\<close>

definition step_error_x :: "real \<times> real \<times> real \<times> real \<times> real \<Rightarrow> real" where
  "step_error_x s = (case s of (t_yaw, t_pitch, now, error_x, error_y) \<Rightarrow> error_x)"

definition step_error_y :: "real \<times> real \<times> real \<times> real \<times> real \<Rightarrow> real" where
  "step_error_y s = (case s of (t_yaw, t_pitch, now, error_x, error_y) \<Rightarrow> error_y)"

text \<open>
  Three controller states used as concrete inputs: a controller as constructed, before
  any connection; a connected controller after two tracking updates with errors 50 and
  -40 one second apart; and that controller after \<open>disconnect\<close> has cleared its flag.
\<close>

definition offline_gimbal :: GimbalController where
  "offline_gimbal = GimbalController_init (0.5, 0, 0.1) (0.5, 0, 0.1) None None"

definition online_gimbal :: GimbalController where
  "online_gimbal =
     (GimbalController_init (0.5, 0.1, 0.1) (0.5, 0.1, 0.1) None None)
       \<lparr>sdk := \<lparr>protocol = SIYIProtocol_init, socket = Some \<lparr>sent = [], peer_gone = False\<rparr>,
                conn_connected = True\<rparr>,
        pid_yaw := \<lparr>kp = 0.5, ki = 0.1, kd = 0.1, min_out = - 100, max_out = 100,
                    prev_error = 50, integral = 50, last_time = Some 1\<rparr>,
        pid_pitch := \<lparr>kp = 0.5, ki = 0.1, kd = 0.1, min_out = - 100, max_out = 100,
                      prev_error = - 40, integral = - 40, last_time = Some 1\<rparr>,
        gc_connected := True\<rparr>"

definition dropped_gimbal :: GimbalController where
  "dropped_gimbal = online_gimbal\<lparr>gc_connected := False\<rparr>"

section \<open>Target tracker (detection/tracker.py)\<close>

text \<open>
  A bounding box is \<open>(x, y, w, h)\<close>; a detection is \<open>(label, score, box)\<close>. Of the
  objects that \<open>BYTETracker.update\<close> returns, \<open>ObjectTracker\<close> reads the box
  \<open>tlwh\<close> and the identity \<open>track_id\<close>. Coordinates are Python floats, modelled
  as reals.
\<close>

type_synonym bbox = "real \<times> real \<times> real \<times> real"
type_synonym detection = "string \<times> real \<times> bbox"

record track =
  tlwh :: bbox
  track_id :: int

text \<open>
  The tracker object that \<open>_create_tracker\<close> makes: one of the OpenCV single-object
  trackers, with the frame and box it was seeded with, or a \<open>BYTETracker\<close>.
\<close>

datatype cv_kind = CSRT | KCF | MOSSE

datatype 'f tracker_obj = CvTracker cv_kind "('f \<times> bbox) option" | ByteTrackerObj

record 'f ObjectTracker =
  tracker_type :: string
  tracker :: "'f tracker_obj option"
  tracking_active :: bool
  detector :: "('f \<Rightarrow> detection list) option"
  tracked_id :: "int option"

text \<open>The lines that \<open>init\<close> prints.\<close>

datatype log_line =
  LockedOnId int
  | CouldNotMatch
  | RequiresDetector
  | TrackerInitialized string

definition create_tracker :: "'f ObjectTracker \<Rightarrow> 'f tracker_obj" where
  "create_tracker self =
     (if tracker_type self = ''CSRT'' then CvTracker CSRT None
      else if tracker_type self = ''KCF'' then CvTracker KCF None
      else if tracker_type self = ''MOSSE'' then CvTracker MOSSE None
      else if tracker_type self = ''BYTE'' then ByteTrackerObj
      else CvTracker CSRT None)"

text \<open>The rows \<open>[x1, y1, x2, y2, score]\<close> handed to the identity tracker.\<close>

definition format_dets :: "detection list \<Rightarrow> real list list" where
  "format_dets detections =
     map (\<lambda>(label, score, (dx, dy, dw, dh)). [dx, dy, dx + dw, dy + dh, score]) detections"

text \<open>The distance from the centroid of a track's box to the point \<open>(mx, my)\<close>.\<close>

definition target_dist :: "track \<Rightarrow> real \<Rightarrow> real \<Rightarrow> real" where
  "target_dist t mx my =
     (case tlwh t of (tx, ty, tw, th) \<Rightarrow>
        (let tcx = tx + tw / 2; tcy = ty + th / 2
         in sqrt ((tcx - mx)\<^sup>2 + (tcy - my)\<^sup>2)))"

text \<open>
  The loop over \<open>online_targets\<close>. \<open>min_dist\<close> starts at \<open>float('inf')\<close>, which is
  \<open>None\<close> here; \<open>best_id\<close> starts at \<open>None\<close>.
\<close>

fun closest_target ::
  "track list \<Rightarrow> real \<Rightarrow> real \<Rightarrow> int option \<times> real option \<Rightarrow> int option \<times> real option" where
  "closest_target [] mx my acc = acc"
| "closest_target (t # ts) mx my (best_id, min_dist) =
     (let dist = target_dist t mx my
      in if (case min_dist of None \<Rightarrow> True | Some m \<Rightarrow> dist < m)
         then closest_target ts mx my (Some (track_id t), Some dist)
         else closest_target ts mx my (best_id, min_dist))"

text \<open>
  \<open>ObjectTracker.init\<close>. The module \<open>bytetracker\<close> is not part of the sources at
  hand, so \<open>bt_update\<close>, the \<open>update\<close> method of the \<open>BYTETracker\<close> just created,
  is an argument. With the BYTE backend and a detector that returns no detection,
  neither branch of the acceptance test runs.
\<close>

definition tracker_init ::
  "'f ObjectTracker \<Rightarrow> (real list list \<Rightarrow> track list) \<Rightarrow> 'f \<Rightarrow> bbox
     \<Rightarrow> 'f ObjectTracker \<times> log_line list" where
  "tracker_init self bt_update frame box =
     (let self1 = self\<lparr>tracker := Some (create_tracker self), tracking_active := True\<rparr>
      in if tracker_type self1 = ''BYTE''
         then
           (case detector self1 of
              None \<Rightarrow>
                (self1\<lparr>tracking_active := False\<rparr>,
                 [RequiresDetector, TrackerInitialized (tracker_type self1)])
            | Some detect \<Rightarrow>
                (let detections = detect frame;
                     (x, y, w, h) = box;
                     mx = x + w / 2;
                     my = y + h / 2;
                     formatted_dets = format_dets detections
                 in if formatted_dets \<noteq> []
                    then
                      (let online_targets = bt_update formatted_dets;
                           (best_id, min_dist) = closest_target online_targets mx my (None, None)
                       in (case best_id of
                             Some i \<Rightarrow>
                               if (case min_dist of None \<Rightarrow> False | Some m \<Rightarrow> m < 100)
                               then (self1\<lparr>tracked_id := Some i\<rparr>,
                                     [LockedOnId i, TrackerInitialized (tracker_type self1)])
                               else (self1\<lparr>tracking_active := False\<rparr>,
                                     [CouldNotMatch, TrackerInitialized (tracker_type self1)])
                           | None \<Rightarrow>
                               (self1\<lparr>tracking_active := False\<rparr>,
                                [CouldNotMatch, TrackerInitialized (tracker_type self1)])))
                    else (self1, [TrackerInitialized (tracker_type self1)])))
         else
           (self1\<lparr>tracker := (case tracker self1 of
                                  Some (CvTracker k seed) \<Rightarrow> Some (CvTracker k (Some (frame, box)))
                                | other \<Rightarrow> other)\<rparr>,
            [TrackerInitialized (tracker_type self1)]))"

text \<open>The centre of a box, as \<open>init\<close> computes \<open>mx\<close> and \<open>my\<close>.\<close>

definition box_centre :: "bbox \<Rightarrow> real \<times> real" where
  "box_centre box = (case box of (x, y, w, h) \<Rightarrow> (x + w / 2, y + h / 2))"

text \<open>
  A stand-in for the identity tracker in concrete runs: it turns row number \<open>k\<close>
  (from 1) into a track with identity \<open>k\<close> and the box of the row.
\<close>

fun rows_to_tracks :: "int \<Rightarrow> real list list \<Rightarrow> track list" where
  "rows_to_tracks k [] = []"
| "rows_to_tracks k (row # rows) =
     (case row of
        [x1, y1, x2, y2, score] \<Rightarrow>
          \<lparr>tlwh = (x1, y1, x2 - x1, y2 - y1), track_id = k\<rparr> # rows_to_tracks (k + 1) rows
      | _ \<Rightarrow> rows_to_tracks (k + 1) rows)"

text \<open>A tracker configured for the BYTE backend, with a detector returning \<open>dets\<close>.\<close>

definition byte_tracker_with :: "detection list \<Rightarrow> unit ObjectTracker" where
  "byte_tracker_with dets =
     \<lparr>tracker_type = ''BYTE'', tracker = None, tracking_active = False,
      detector = Some (\<lambda>frame. dets), tracked_id = None\<rparr>"

text \<open>
  Three detection passes used as concrete inputs, for a requested box with centre
  (100, 100): candidates whose centroids are 5, 60 and 150 pixels away, a single
  candidate whose centroid is exactly 100 pixels away, and two candidates whose
  centroids are both 5 pixels away, on opposite sides.
\<close>

definition three_candidates :: "detection list" where
  "three_candidates =
     [(''person'', 0.9, (95, 90, 20, 20)), (''person'', 0.8, (150, 90, 20, 20)),
      (''car'', 0.7, (240, 90, 20, 20))]"

definition boundary_candidate :: "detection list" where
  "boundary_candidate = [(''person'', 0.9, (190, 90, 20, 20))]"

definition tied_candidates :: "detection list" where
  "tied_candidates =
     [(''person'', 0.9, (95, 90, 20, 20)), (''person'', 0.8, (85, 90, 20, 20))]"

section \<open>Properties of the protocol engine\<close>

subsection \<open>Slices and header fields\<close>

lemma slice_take_drop:
  "0 \<le> a \<Longrightarrow> a \<le> b \<Longrightarrow> b \<le> int (length xs) \<Longrightarrow>
   slice xs a b = take (nat (b - a)) (drop (nat a) xs)"
  by (simp add: slice_def slice_bound_def Let_def min_def)

lemma slice_prefix:
  "0 \<le> b \<Longrightarrow> b \<le> int (length xs) \<Longrightarrow> slice xs 0 b = take (nat b) xs"
  by (simp add: slice_take_drop)

lemma take2_drop_nth:
  assumes "k + 2 \<le> length xs"
  shows "take 2 (drop k xs) = [xs ! k, xs ! (k + 1)]"
proof -
  have "drop k xs = xs ! k # drop (Suc k) xs"
    using assms by (simp add: Cons_nth_drop_Suc)
  moreover have "drop (Suc k) xs = xs ! Suc k # drop (Suc (Suc k)) xs"
    using assms by (simp add: Cons_nth_drop_Suc)
  ultimately show ?thesis
    by (simp add: eval_nat_numeral)
qed

lemma take8_nth:
  "8 \<le> length xs \<Longrightarrow>
   take 8 xs = [xs ! 0, xs ! 1, xs ! 2, xs ! 3, xs ! 4, xs ! 5, xs ! 6, xs ! 7]"
  by (auto simp: Suc_le_length_iff eval_nat_numeral)

lemma unpack_HBHHB_header:
  assumes "8 \<le> length p"
  shows "unpack_HBHHB (slice p 0 8) =
           Inr (field_u16 p 0, field_u8 p 2, field_u16 p 3, field_u16 p 5, field_u8 p 7)"
proof -
  have "slice p 0 8 = take 8 p"
    using assms by (simp add: slice_prefix)
  then show ?thesis
    using assms by (simp add: take8_nth unpack_HBHHB_def field_u16_def field_u8_def)
qed

lemma unpack_H_at:
  assumes "0 \<le> k" and "k + 2 \<le> int (length p)"
  shows "unpack_H (slice p k (k + 2)) = Inr (field_u16 p (nat k))"
proof -
  have "slice p k (k + 2) = take 2 (drop (nat k) p)"
    using assms by (simp add: slice_take_drop)
  moreover have "nat k + 2 \<le> length p"
    using assms by linarith
  ultimately show ?thesis
    by (simp add: take2_drop_nth unpack_H_def field_u16_def)
qed

lemma field_u16_nonneg: "0 \<le> field_u16 p i"
  by (simp add: field_u16_def)

lemma parse_packet_eq:
  "parse_packet p =
     (if length p < 10 then Inr None
      else if field_u16 p 0 \<noteq> STX then Inr None
      else if int (length p) < 8 + field_u16 p 3 + 2 then Inr None
      else if field_u16 p (8 + nat (field_u16 p 3))
                \<noteq> calculate_crc16 (take (8 + nat (field_u16 p 3)) p) then Inr None
      else Inr (Some \<lparr>ctrl = field_u8 p 2, data_len = field_u16 p 3, seq = field_u16 p 5,
                      cmd_id = field_u8 p 7,
                      data = take (nat (field_u16 p 3)) (drop 8 p),
                      crc16 = field_u16 p (8 + nat (field_u16 p 3))\<rparr>))"
proof (cases "length p < 10")
  case True
  then show ?thesis by (simp add: parse_packet_def)
next
  case long: False
  then have hdr: "unpack_HBHHB (slice p 0 8) =
           Inr (field_u16 p 0, field_u8 p 2, field_u16 p 3, field_u16 p 5, field_u8 p 7)"
    by (simp add: unpack_HBHHB_header)
  show ?thesis
  proof (cases "field_u16 p 0 \<noteq> STX \<or> int (length p) < 8 + field_u16 p 3 + 2")
    case True
    then show ?thesis using long hdr by (auto simp add: parse_packet_def)
  next
    case False
    let ?n = "field_u16 p 3"
    have n0: "0 \<le> ?n" by (rule field_u16_nonneg)
    have fits: "8 + ?n + 2 \<le> int (length p)" using False by simp
    have tr: "unpack_H (slice p (8 + ?n) (8 + ?n + 2)) = Inr (field_u16 p (nat (8 + ?n)))"
      using n0 fits by (intro unpack_H_at) simp_all
    have idx: "nat (8 + ?n) = 8 + nat ?n" using n0 by simp
    have d: "slice p 8 (8 + ?n) = take (nat ?n) (drop 8 p)"
      using n0 fits by (simp add: slice_take_drop)
    have c: "slice p 0 (8 + ?n) = take (8 + nat ?n) p"
      using n0 fits by (simp add: slice_prefix idx)
    show ?thesis
      using long hdr False tr d c by (simp add: parse_packet_def idx Let_def)
  qed
qed

subsection \<open>Range of the checksum\<close>

lemma crc_round_range: "0 \<le> crc_round c \<and> crc_round c \<le> 65535"
  by (simp add: crc_round_def AND_upper2)

lemma crc_update_range: "0 \<le> crc_update c b \<and> crc_update c b \<le> 65535"
proof -
  have "crc_update c b = crc_round ((crc_round ^^ 7) (c XOR push_bit 8 (uint b)))"
    by (simp add: crc_update_def eval_nat_numeral)
  then show ?thesis
    using crc_round_range by presburger
qed

lemma calculate_crc16_range: "0 \<le> calculate_crc16 xs \<and> calculate_crc16 xs \<le> 65535"
proof (cases xs rule: rev_cases)
  case Nil
  then show ?thesis by (simp add: calculate_crc16_def)
next
  case (snoc ys y)
  then show ?thesis
    using crc_update_range by (simp add: calculate_crc16_def)
qed

lemma uint_byte_of_int: "0 \<le> n \<Longrightarrow> n \<le> 255 \<Longrightarrow> uint (word_of_int n :: byte) = n"
  by (simp add: uint_word_of_int take_bit_eq_mod)

lemma field_u16_le:
  assumes "0 \<le> n" and "n \<le> 65535"
  shows "uint (word_of_int (n mod 256) :: byte) + 256 * uint (word_of_int (n div 256) :: byte) = n"
proof -
  have "n div 256 \<le> 255" using assms by simp
  moreover have "0 \<le> n div 256" using assms by simp
  ultimately show ?thesis
    by (simp add: uint_byte_of_int)
qed

subsection \<open>Shape of a built packet\<close>

lemma build_packet_ok:
  assumes "0 \<le> c" "c \<le> 255" "length P \<le> 65535"
    and "0 \<le> sequence s" "sequence s \<le> 65535"
  shows "build_packet s c P na =
           (Inr (header_bytes na (int (length P)) (sequence s) c @ P
                 @ le16 (calculate_crc16 (header_bytes na (int (length P)) (sequence s) c @ P))),
            s\<lparr>sequence := (sequence s + 1) mod 65536\<rparr>)"
  using assms calculate_crc16_range
  by (simp add: build_packet_def get_next_sequence_def pack_HBHHB_def pack_H_def pack_B_def
      STX_def CTRL_NEED_ACK_def CTRL_ACK_PACK_def header_bytes_def le16_def Let_def)


lemma header_bytes_length: "length (header_bytes na n sq c) = 8"
  by (simp add: header_bytes_def le16_def)

lemma parse_built:
  assumes "0 \<le> c" "c \<le> 255" "length P \<le> 65535"
    and "0 \<le> sq" "sq \<le> 65535"
  shows "parse_packet (header_bytes na (int (length P)) sq c @ P
                 @ le16 (calculate_crc16 (header_bytes na (int (length P)) sq c @ P))) =
         Inr (Some \<lparr>ctrl = (if na then 0 else 1), data_len = int (length P), seq = sq,
                      cmd_id = c, data = P,
                      crc16 = calculate_crc16 (header_bytes na (int (length P)) sq c @ P)\<rparr>)"
proof -
  let ?h = "header_bytes na (int (length P)) sq c"
  let ?crc = "calculate_crc16 (?h @ P)"
  let ?p = "?h @ P @ le16 ?crc"
  have len: "length ?p = 10 + length P"
    by (simp add: header_bytes_length le16_def)
  have n: "0 \<le> int (length P)" "int (length P) \<le> 65535"
    using assms by simp_all
  have f0: "field_u16 ?p 0 = STX"
    by (simp add: field_u16_def header_bytes_def le16_def STX_def)
  have f2: "field_u8 ?p 2 = (if na then 0 else 1)"
    by (simp add: field_u8_def header_bytes_def le16_def)
  have f3: "field_u16 ?p 3 = int (length P)"
    using field_u16_le [OF n] by (simp add: field_u16_def header_bytes_def le16_def)
  have f5: "field_u16 ?p 5 = sq"
    using field_u16_le [OF assms(4,5)] by (simp add: field_u16_def header_bytes_def le16_def)
  have f7: "field_u8 ?p 7 = c"
    using assms by (simp add: field_u8_def header_bytes_def le16_def uint_byte_of_int)
  have tk: "take (8 + length P) ?p = ?h @ P"
    by (simp add: header_bytes_length)
  have dr: "take (length P) (drop 8 ?p) = P"
    by (simp add: header_bytes_length)
  have fc: "field_u16 ?p (8 + length P) = ?crc"
    using field_u16_le [of ?crc] calculate_crc16_range [of "?h @ P"]
    by (simp add: field_u16_def nth_append header_bytes_length le16_def)
  show ?thesis
    by (simp only: parse_packet_eq len f0 f2 f3 f5 f7 nat_int tk dr fc) simp
qed


subsection \<open>Round trip\<close>

text \<open>
  C1 (as amended). For every command id \<open>C\<close> in 0..255, every payload \<open>P\<close> of at
  most 65535 bytes, either value of \<open>need_ack\<close> and every session whose counter is in
  0..65535, \<open>build_packet\<close> returns a packet, and \<open>parse_packet\<close> on that packet
  succeeds with command id \<open>C\<close> and a payload identical to \<open>P\<close>.
\<close>

theorem build_parse_round_trip:
  assumes "0 \<le> C" and "C \<le> 255" and "length P \<le> 65535"
    and "0 \<le> sequence s" and "sequence s \<le> 65535"
  shows "\<exists>pkt r. fst (build_packet s C P need_ack) = Inr pkt
           \<and> parse_packet pkt = Inr (Some r) \<and> cmd_id r = C \<and> data r = P"
  using assms by (simp add: build_packet_ok parse_built)

theorem build_parse_round_trip_witness:
  "\<exists>pkt r. fst (build_packet SIYIProtocol_init CENTER [1] True) = Inr pkt
           \<and> parse_packet pkt = Inr (Some r) \<and> cmd_id r = CENTER \<and> data r = [1]"
  using build_parse_round_trip [of CENTER "[1]" SIYIProtocol_init True]
  by (simp add: CENTER_def SIYIProtocol_init_def)

text \<open>
  C1 as stated, for every payload, fails: a payload of 65536 bytes does not fit the
  16-bit length field, and \<open>build_packet\<close> raises \<open>struct.error\<close>.
\<close>

theorem build_packet_oversized_payload:
  "fst (build_packet SIYIProtocol_init HEARTBEAT (replicate 65536 0) False) = Inl StructError"
  by (simp add: build_packet_def get_next_sequence_def pack_HBHHB_def pack_H_def pack_B_def
      STX_def CTRL_ACK_PACK_def HEARTBEAT_def SIYIProtocol_init_def Let_def)

subsection \<open>Known vector\<close>

text \<open>
  C3 as stated fails: with an empty payload, the heartbeat packet of a fresh session
  is 10 bytes long and is not the 11-byte vector.
\<close>

theorem heartbeat_empty_payload_bytes:
  "fst (build_packet SIYIProtocol_init HEARTBEAT [] False)
     = Inr [0x55, 0x66, 0x01, 0x00, 0x00, 0x00, 0x00, 0x00, 0x45, 0xd4]
   \<and> fst (build_packet SIYIProtocol_init HEARTBEAT [] False)
     \<noteq> Inr [0x55, 0x66, 0x01, 0x01, 0x00, 0x00, 0x00, 0x00, 0x00, 0x59, 0x8b]"
  by code_simp

text \<open>
  C3 (as amended). The heartbeat that \<open>_heartbeat_loop\<close> sends has command id 0x00 and
  the one-byte payload 00; on a fresh session it builds to
  55 66 01 01 00 00 00 00 00 59 8b.
\<close>

theorem heartbeat_known_vector:
  "fst (build_packet SIYIProtocol_init HEARTBEAT [0x00] False)
     = Inr [0x55, 0x66, 0x01, 0x01, 0x00, 0x00, 0x00, 0x00, 0x00, 0x59, 0x8b]"
  by code_simp

subsection \<open>Sequence numbers\<close>

lemma build_packet_sequence:
  "snd (build_packet s c d na) = s\<lparr>sequence := (sequence s + 1) mod 65536\<rparr>"
  by (simp add: build_packet_def get_next_sequence_def Let_def split: sum.splits)

lemma build_packet_seq_field:
  assumes "0 \<le> c" "c \<le> 255" "length d \<le> 65535"
    and "0 \<le> sequence s" "sequence s \<le> 65535"
  shows "\<exists>pkt. fst (build_packet s c d na) = Inr pkt \<and> field_u16 pkt 5 = sequence s"
  using assms field_u16_le [of "sequence s"]
  by (simp add: build_packet_ok field_u16_def header_bytes_def le16_def)

lemma consecutive_builds_nth:
  assumes "k < length reqs" and "reqs ! k = (c, d, na)"
    and "0 \<le> c" "c \<le> 255" "length d \<le> 65535"
    and "0 \<le> sequence s" "sequence s \<le> 65535"
  shows "\<exists>pkt. fst (consecutive_builds s reqs) ! k = Inr pkt
           \<and> field_u16 pkt 5 = (sequence s + int k) mod 65536"
  using assms
proof (induction reqs arbitrary: s k)
  case Nil
  then show ?case by simp
next
  case (Cons q reqs)
  obtain c' d' na' where q: "q = (c', d', na')"
    by (cases q)
  let ?s' = "snd (build_packet s c' d' na')"
  have s': "?s' = s\<lparr>sequence := (sequence s + 1) mod 65536\<rparr>"
    by (rule build_packet_sequence)
  have unfold: "fst (consecutive_builds s (q # reqs))
         = fst (build_packet s c' d' na') # fst (consecutive_builds ?s' reqs)"
    by (simp add: q split_beta Let_def)
  show ?case
  proof (cases k)
    case 0
    with Cons.prems q have "c' = c" "d' = d" "na' = na" by simp_all
    then show ?thesis
      using Cons.prems build_packet_seq_field [of c d s na] 0 unfold by simp
  next
    case (Suc j)
    have range: "0 \<le> sequence ?s'" "sequence ?s' \<le> 65535"
      by (simp_all add: s')
    have "\<exists>pkt. fst (consecutive_builds ?s' reqs) ! j = Inr pkt
           \<and> field_u16 pkt 5 = (sequence ?s' + int j) mod 65536"
      using Cons.prems Suc range by (intro Cons.IH) simp_all
    moreover have "(sequence ?s' + int j) mod 65536 = (sequence s + int k) mod 65536"
      using Suc by (simp add: s' mod_simps algebra_simps)
    ultimately show ?thesis
      using Suc unfold by simp
  qed
qed

text \<open>
  C4. In a run of consecutive \<open>build_packet\<close> calls on a freshly constructed session,
  the call number \<open>k\<close> (counted from 0), when its command id and payload fit their
  fields, returns a packet whose sequence field is \<open>k mod 65536\<close>. The witness is the
  65537th build, which carries sequence 0 again.
\<close>

theorem consecutive_builds_sequence:
  assumes "k < length reqs" and "reqs ! k = (c, d, na)"
    and "0 \<le> c" and "c \<le> 255" and "length d \<le> 65535"
  shows "\<exists>pkt. fst (consecutive_builds SIYIProtocol_init reqs) ! k = Inr pkt
           \<and> field_u16 pkt 5 = int k mod 65536"
  using consecutive_builds_nth [OF assms, of SIYIProtocol_init]
  by (simp add: SIYIProtocol_init_def)

theorem consecutive_builds_sequence_witness:
  "\<exists>pkt. fst (consecutive_builds SIYIProtocol_init (replicate 65537 (HEARTBEAT, [0], False))) ! 65536
            = Inr pkt \<and> field_u16 pkt 5 = 0"
  using consecutive_builds_sequence
    [of 65536 "replicate 65537 (HEARTBEAT, [0], False)" HEARTBEAT "[0]" False]
  by (simp add: HEARTBEAT_def)

subsection \<open>Parse failures\<close>

text \<open>
  C5. \<open>parse_packet\<close> returns \<open>None\<close> exactly on the malformed byte strings, and on
  every other byte string returns the control flag, length, sequence, command id and
  payload fields of the input.
\<close>

theorem parse_packet_fails_exactly_when_malformed:
  "parse_packet p = (if malformed p then Inr None else Inr (Some (packet_fields p)))"
  by (auto simp add: parse_packet_eq malformed_def packet_fields_def STX_def)

theorem parse_packet_fails_exactly_when_malformed_witness:
  "\<not> malformed [0x55, 0x66, 0x01, 0x01, 0x00, 0x00, 0x00, 0x00, 0x00, 0x59, 0x8b]
   \<and> parse_packet [0x55, 0x66, 0x01, 0x01, 0x00, 0x00, 0x00, 0x00, 0x00, 0x59, 0x8b]
       = Inr (Some \<lparr>ctrl = 1, data_len = 1, seq = 0, cmd_id = 0, data = [0x00],
                       crc16 = 0x8b59\<rparr>)"
proof -
  let ?p = "[0x55, 0x66, 0x01, 0x01, 0x00, 0x00, 0x00, 0x00, 0x00, 0x59, 0x8b] :: byte list"
  have m: "\<not> malformed ?p"
    by code_simp
  have f: "packet_fields ?p = \<lparr>ctrl = 1, data_len = 1, seq = 0, cmd_id = 0, data = [0x00],
                       crc16 = 0x8b59\<rparr>"
    by code_simp
  show ?thesis
    using parse_packet_fails_exactly_when_malformed [of ?p] m f by simp
qed

subsection \<open>Trailing bytes\<close>

text \<open>
  C10. When \<open>parse_packet\<close> succeeds on \<open>b\<close>, it succeeds on \<open>b\<close> followed by any
  further bytes, with the same control flag, length, sequence, command id, payload and
  checksum fields.
\<close>

theorem parse_packet_ignores_trailing_bytes:
  assumes "parse_packet b = Inr (Some r)"
  shows "parse_packet (b @ junk) = Inr (Some r)"
proof -
  let ?n = "nat (field_u16 b 3)"
  from assms have len: "10 \<le> length b"
    and stx: "field_u16 b 0 = STX"
    and fits: "8 + field_u16 b 3 + 2 \<le> int (length b)"
    and crc: "field_u16 b (8 + ?n) = calculate_crc16 (take (8 + ?n) b)"
    and r: "r = \<lparr>ctrl = field_u8 b 2, data_len = field_u16 b 3, seq = field_u16 b 5,
                  cmd_id = field_u8 b 7, data = take ?n (drop 8 b),
                  crc16 = field_u16 b (8 + ?n)\<rparr>"
    by (simp_all add: parse_packet_eq split: if_splits)
  have n: "10 + ?n \<le> length b"
    using fits field_u16_nonneg [of b 3] by linarith
  have u16: "field_u16 (b @ junk) i = field_u16 b i" if "i + 2 \<le> length b" for i
    using that by (simp add: field_u16_def nth_append)
  have u8: "field_u8 (b @ junk) i = field_u8 b i" if "i < length b" for i
    using that by (simp add: field_u8_def nth_append)
  have h: "field_u16 (b @ junk) 0 = field_u16 b 0" "field_u8 (b @ junk) 2 = field_u8 b 2"
    "field_u16 (b @ junk) 3 = field_u16 b 3" "field_u16 (b @ junk) 5 = field_u16 b 5"
    "field_u8 (b @ junk) 7 = field_u8 b 7"
    using len by (simp_all add: u16 u8)
  have t: "field_u16 (b @ junk) (8 + ?n) = field_u16 b (8 + ?n)"
    using n by (simp add: u16)
  have tk: "take (8 + ?n) (b @ junk) = take (8 + ?n) b"
    using n by simp
  have dr: "take ?n (drop 8 (b @ junk)) = take ?n (drop 8 b)"
    using n by simp
  show ?thesis
    using len stx fits crc
    by (simp add: parse_packet_eq [of "b @ junk"] h t tk dr r)
qed


theorem parse_packet_ignores_trailing_bytes_witness:
  "parse_packet ([0x55, 0x66, 0x01, 0x01, 0x00, 0x00, 0x00, 0x00, 0x00, 0x59, 0x8b] @ [0xde, 0xad])
     = Inr (Some \<lparr>ctrl = 1, data_len = 1, seq = 0, cmd_id = 0, data = [0x00],
                     crc16 = 0x8b59\<rparr>)"
proof -
  have "parse_packet [0x55, 0x66, 0x01, 0x01, 0x00, 0x00, 0x00, 0x00, 0x00, 0x59, 0x8b]
     = Inr (Some \<lparr>ctrl = 1, data_len = 1, seq = 0, cmd_id = 0, data = [0x00],
                     crc16 = 0x8b59\<rparr>)"
    by code_simp
  then show ?thesis
    by (rule parse_packet_ignores_trailing_bytes)
qed

subsection \<open>The checksum is injective in every byte\<close>

text \<open>
  One round of the checksum is injective on 16-bit values: the low bit of the result is
  the high bit of the argument, and with it the result gives back the other fifteen
  bits. So the checksum of a byte string changes whenever one of its bytes changes.
\<close>

lemma and_xor_mask_cancel:
  fixes a b k m :: int
  assumes "(a XOR k) AND m = (b XOR k) AND m"
  shows "a AND m = b AND m"
proof -
  have "((a XOR k) AND m) XOR (k AND m) = a AND m" for a :: int
    by (rule bit_eqI) (auto simp add: bit_simps)
  then show ?thesis
    using assms by metis
qed

lemma and_ffff_mod: "(x :: int) AND 0xFFFF = x mod 65536"
proof -
  have "take_bit 16 x = x AND mask 16"
    by (rule take_bit_eq_mask)
  then show ?thesis
    by (simp add: take_bit_eq_mod mask_eq_exp_minus_1)
qed

lemma high_bit_iff:
  assumes "0 \<le> c" "c \<le> 65535"
  shows "c AND 0x8000 \<noteq> 0 \<longleftrightarrow> 32768 \<le> (c :: int)"
proof -
  have "c AND 2 ^ 15 = 0 \<longleftrightarrow> \<not> bit c 15"
    by (rule and_exp_eq_0_iff_not_bit)
  moreover have "bit c 15 \<longleftrightarrow> odd (c div 2 ^ 15)"
    by (rule bit_iff_odd)
  moreover have "odd (c div 32768) \<longleftrightarrow> 32768 \<le> c"
  proof -
    have "c div 32768 = 0 \<or> c div 32768 = 1"
      using assms by linarith
    moreover have "c div 32768 = 1 \<longleftrightarrow> 32768 \<le> c"
      using assms by linarith
    ultimately show ?thesis by auto
  qed
  ultimately show ?thesis by simp
qed

lemma crc_round_odd:
  assumes "0 \<le> c" "c \<le> 65535"
  shows "odd (crc_round c) \<longleftrightarrow> 32768 \<le> c"
  using high_bit_iff [OF assms]
  by (simp add: crc_round_def even_and_iff even_xor_iff)

lemma crc_round_low:
  assumes "0 \<le> c" "c \<le> 65535" "0 \<le> d" "d \<le> 65535"
    and "crc_round c = crc_round d"
  shows "(2 * c) mod 65536 = (2 * d) mod 65536"
proof -
  have same: "32768 \<le> c \<longleftrightarrow> 32768 \<le> d"
    using crc_round_odd [OF assms(1,2)] crc_round_odd [OF assms(3,4)] assms(5) by simp
  have "push_bit 1 c AND 0xFFFF = push_bit 1 d AND 0xFFFF"
  proof (cases "32768 \<le> c")
    case True
    with same have d: "32768 \<le> d" by simp
    have "crc_round c = (push_bit 1 c XOR 0x1021) AND 0xFFFF"
      using True high_bit_iff [OF assms(1,2)] by (simp add: crc_round_def)
    moreover have "crc_round d = (push_bit 1 d XOR 0x1021) AND 0xFFFF"
      using d high_bit_iff [OF assms(3,4)] by (simp add: crc_round_def)
    ultimately have "(push_bit 1 c XOR 0x1021) AND 0xFFFF = (push_bit 1 d XOR 0x1021) AND 0xFFFF"
      using assms(5) by simp
    then show ?thesis
      by (rule and_xor_mask_cancel)
  next
    case False
    with same have d: "\<not> 32768 \<le> d" by simp
    have "crc_round c = push_bit 1 c AND 0xFFFF"
      using False high_bit_iff [OF assms(1,2)] by (simp add: crc_round_def)
    moreover have "crc_round d = push_bit 1 d AND 0xFFFF"
      using d high_bit_iff [OF assms(3,4)] by (simp add: crc_round_def)
    ultimately show ?thesis
      using assms(5) by simp
  qed
  then show ?thesis
    by (simp add: and_ffff_mod push_bit_eq_mult mult.commute)
qed

lemma mod_half_range:
  fixes c :: int
  assumes "0 \<le> c" "c \<le> 65535"
  shows "c mod 32768 = (if 32768 \<le> c then c - 32768 else c)"
proof (cases "32768 \<le> c")
  case True
  have "(c - 32768) mod 32768 = c - 32768"
    using True assms by (intro mod_pos_pos_trivial) simp_all
  moreover have "(c - 32768) mod 32768 = c mod 32768"
    by simp
  ultimately show ?thesis
    using True by simp
next
  case False
  then show ?thesis
    using assms by (simp add: mod_pos_pos_trivial)
qed

lemma crc_round_inj:
  assumes "0 \<le> c" "c \<le> 65535" "0 \<le> d" "d \<le> 65535"
    and "crc_round c = crc_round d"
  shows "c = d"
proof -
  have same: "32768 \<le> c \<longleftrightarrow> 32768 \<le> d"
    using crc_round_odd [OF assms(1,2)] crc_round_odd [OF assms(3,4)] assms(5) by simp
  have "(2 * c) mod (2 * 32768) = (2 * d) mod (2 * 32768)"
    using crc_round_low [OF assms] by simp
  then have "2 * (c mod 32768) = 2 * (d mod 32768)"
    by (simp only: mult_mod_right)
  then have "c mod 32768 = d mod 32768"
    by simp
  then show ?thesis
    using same by (simp add: mod_half_range assms(1-4) split: if_splits)
qed


lemma crc_round_funpow_range:
  "0 \<le> (crc_round ^^ Suc n) c \<and> (crc_round ^^ Suc n) c \<le> 65535"
  using crc_round_range by simp

lemma crc_round_funpow_inj:
  assumes "0 \<le> c" "c \<le> 65535" "0 \<le> d" "d \<le> 65535"
    and "(crc_round ^^ n) c = (crc_round ^^ n) d"
  shows "c = d"
  using assms(5)
proof (induction n)
  case 0
  then show ?case by simp
next
  case (Suc n)
  have rc: "0 \<le> (crc_round ^^ n) c" "(crc_round ^^ n) c \<le> 65535"
    using assms(1,2) crc_round_funpow_range [of _ c] by (cases n; simp)+
  have rd: "0 \<le> (crc_round ^^ n) d" "(crc_round ^^ n) d \<le> 65535"
    using assms(3,4) crc_round_funpow_range [of _ d] by (cases n; simp)+
  from Suc.prems have "crc_round ((crc_round ^^ n) c) = crc_round ((crc_round ^^ n) d)"
    by simp
  with rc rd have "(crc_round ^^ n) c = (crc_round ^^ n) d"
    by (rule crc_round_inj)
  then show ?case by (rule Suc.IH)
qed

lemma xor_byte_range:
  assumes "0 \<le> c" "c \<le> 65535"
  shows "0 \<le> c XOR push_bit 8 (uint (b :: byte)) \<and> c XOR push_bit 8 (uint b) \<le> 65535"
proof -
  have "uint b < 256"
    using uint_bounded [of b] by simp
  then have hi: "push_bit 8 (uint b) < 2 ^ 16"
    by (simp add: push_bit_eq_mult)
  have "c XOR push_bit 8 (uint b) < 2 ^ 16"
    using assms hi by (intro XOR_upper) simp_all
  then show ?thesis
    using assms by simp
qed

lemma xor_cancel_right_int: "(a :: int) XOR v = b XOR v \<Longrightarrow> a = b"
proof -
  assume "a XOR v = b XOR v"
  then have "(a XOR v) XOR v = (b XOR v) XOR v" by simp
  then show "a = b" by (simp add: xor.assoc)
qed


lemma xor_cancel_left_int: "(c :: int) XOR v = c XOR w \<Longrightarrow> v = w"
proof -
  assume "c XOR v = c XOR w"
  then have "v XOR c = w XOR c" by (simp add: xor.commute)
  then show "v = w" by (rule xor_cancel_right_int)
qed

lemma crc_update_inj_state:
  assumes "0 \<le> c" "c \<le> 65535" "0 \<le> d" "d \<le> 65535"
    and "crc_update c b = crc_update d b"
  shows "c = d"
proof -
  let ?v = "push_bit 8 (uint b)"
  have rc: "0 \<le> c XOR ?v" "c XOR ?v \<le> 65535"
    using xor_byte_range [OF assms(1,2), of b] by simp_all
  have rd: "0 \<le> d XOR ?v" "d XOR ?v \<le> 65535"
    using xor_byte_range [OF assms(3,4), of b] by simp_all
  have "(crc_round ^^ 8) (c XOR ?v) = (crc_round ^^ 8) (d XOR ?v)"
    using assms(5) unfolding crc_update_def .
  with rc rd have "c XOR ?v = d XOR ?v"
    by (rule crc_round_funpow_inj)
  then show ?thesis
    by (rule xor_cancel_right_int)
qed

lemma crc_update_inj_byte:
  assumes "0 \<le> c" "c \<le> 65535"
    and "crc_update c b = crc_update c b'"
  shows "b = b'"
proof -
  let ?v = "push_bit 8 (uint b)"
  let ?w = "push_bit 8 (uint b')"
  have rv: "0 \<le> c XOR ?v" "c XOR ?v \<le> 65535"
    using xor_byte_range [OF assms(1,2), of b] by simp_all
  have rw: "0 \<le> c XOR ?w" "c XOR ?w \<le> 65535"
    using xor_byte_range [OF assms(1,2), of b'] by simp_all
  have "(crc_round ^^ 8) (c XOR ?v) = (crc_round ^^ 8) (c XOR ?w)"
    using assms(3) unfolding crc_update_def .
  with rv rw have "c XOR ?v = c XOR ?w"
    by (rule crc_round_funpow_inj)
  then have "?v = ?w"
    by (rule xor_cancel_left_int)
  then have "uint b = uint b'"
    by (simp add: push_bit_eq_mult)
  then show ?thesis
    by (rule word_uint_eqI)
qed

lemma foldl_crc_update_range:
  assumes "0 \<le> c" "c \<le> 65535"
  shows "0 \<le> foldl crc_update c xs \<and> foldl crc_update c xs \<le> 65535"
proof (cases xs rule: rev_cases)
  case Nil
  then show ?thesis using assms by simp
next
  case (snoc ys y)
  then show ?thesis using crc_update_range by simp
qed

lemma foldl_crc_update_inj:
  assumes "0 \<le> c" "c \<le> 65535" "0 \<le> d" "d \<le> 65535"
    and "foldl crc_update c xs = foldl crc_update d xs"
  shows "c = d"
  using assms
proof (induction xs arbitrary: c d)
  case Nil
  then show ?case by simp
next
  case (Cons x xs)
  have rc: "0 \<le> crc_update c x" "crc_update c x \<le> 65535"
    using crc_update_range [of c x] by simp_all
  have rd: "0 \<le> crc_update d x" "crc_update d x \<le> 65535"
    using crc_update_range [of d x] by simp_all
  have "foldl crc_update (crc_update c x) xs = foldl crc_update (crc_update d x) xs"
    using Cons.prems(5) by simp
  with rc rd have "crc_update c x = crc_update d x"
    by (rule Cons.IH)
  with Cons.prems(1-4) show ?case
    by (rule crc_update_inj_state)
qed

lemma calculate_crc16_detects_byte_change:
  assumes "k < length xs" and "b \<noteq> xs ! k"
  shows "calculate_crc16 (xs[k := b]) \<noteq> calculate_crc16 xs"
proof
  assume eq: "calculate_crc16 (xs[k := b]) = calculate_crc16 xs"
  let ?c0 = "foldl crc_update 0 (take k xs)"
  let ?suf = "drop (Suc k) xs"
  have c0: "0 \<le> ?c0" "?c0 \<le> 65535"
    using foldl_crc_update_range [of 0 "take k xs"] by simp_all
  have old: "xs = take k xs @ xs ! k # ?suf"
    using assms(1) by (rule id_take_nth_drop)
  have new: "xs[k := b] = take k xs @ b # ?suf"
    using assms(1) by (rule upd_conv_take_nth_drop)
  have "calculate_crc16 (take k xs @ xs ! k # ?suf)
          = foldl crc_update (crc_update ?c0 (xs ! k)) ?suf"
    by (simp only: calculate_crc16_def foldl_append foldl_Cons)
  then have o: "calculate_crc16 xs = foldl crc_update (crc_update ?c0 (xs ! k)) ?suf"
    using old by simp
  have "calculate_crc16 (take k xs @ b # ?suf) = foldl crc_update (crc_update ?c0 b) ?suf"
    by (simp only: calculate_crc16_def foldl_append foldl_Cons)
  then have n: "calculate_crc16 (xs[k := b]) = foldl crc_update (crc_update ?c0 b) ?suf"
    using new by simp
  have rb: "0 \<le> crc_update ?c0 b" "crc_update ?c0 b \<le> 65535"
    using crc_update_range [of ?c0 b] by simp_all
  have rx: "0 \<le> crc_update ?c0 (xs ! k)" "crc_update ?c0 (xs ! k) \<le> 65535"
    using crc_update_range [of ?c0 "xs ! k"] by simp_all
  have "foldl crc_update (crc_update ?c0 b) ?suf
        = foldl crc_update (crc_update ?c0 (xs ! k)) ?suf"
    using eq o n by simp
  with rb rx have "crc_update ?c0 b = crc_update ?c0 (xs ! k)"
    by (rule foldl_crc_update_inj)
  with c0 have "b = xs ! k"
    by (rule crc_update_inj_byte)
  with assms(2) show False by simp
qed

subsection \<open>Checksum sensitivity\<close>

lemma byte_flip_neq: "j < 8 \<Longrightarrow> (x :: byte) XOR push_bit j 1 \<noteq> x"
proof
  assume j: "j < 8" and "x XOR push_bit j 1 = x"
  then have "bit (x XOR push_bit j 1) j = bit x j" by simp
  then show False using j by (simp add: bit_simps)
qed
lemma byte_flip_up:
  assumes "j < 8" and "\<not> bit (x :: byte) j"
  shows "uint x < uint (x XOR push_bit j 1)"
proof -
  have "uint (x XOR push_bit j 1) = uint x XOR uint (push_bit j 1 :: byte)"
    by (simp add: uint_xor)
  also have "uint (push_bit j 1 :: byte) = push_bit j 1"
    using assms(1) by (intro bit_eqI) (auto simp add: bit_simps)
  also have "uint x XOR push_bit j 1 = flip_bit j (uint x)"
    by (simp add: flip_bit_eq_xor)
  also have "\<dots> = set_bit j (uint x)"
    using assms(2) by (simp add: flip_bit_eq_if bit_uint_iff)
  also have "\<dots> = uint x + 2 ^ j"
    using assms(2) by (simp add: set_bit_eq bit_uint_iff)
  finally show ?thesis by simp
qed
lemma field_u16_update_other:
  "k \<noteq> i \<Longrightarrow> k \<noteq> i + 1 \<Longrightarrow> field_u16 (p[k := b]) i = field_u16 p i"
  by (simp add: field_u16_def)

lemma field_u16_update_changes:
  assumes "i + 1 < length p" and "k = i \<or> k = i + 1" and "b \<noteq> p ! k"
  shows "field_u16 (p[k := b]) i \<noteq> field_u16 p i"
proof -
  have "uint b \<noteq> uint (p ! k)"
    using assms(3) by (simp add: word_uint_eq_iff)
  then show ?thesis
    using assms(1,2) by (auto simp add: field_u16_def)
qed

lemma field_u16_update_grows:
  assumes "i + 1 < length p" and "k = i \<or> k = i + 1" and "uint (p ! k) < uint b"
  shows "field_u16 p i < field_u16 (p[k := b]) i"
  using assms by (auto simp add: field_u16_def)

lemma build_packet_Inr:
  assumes "fst (build_packet s c P na) = Inr pkt"
  shows "0 \<le> c \<and> c \<le> 255 \<and> length P \<le> 65535 \<and> 0 \<le> sequence s \<and> sequence s \<le> 65535"
  using assms
  by (simp add: build_packet_def get_next_sequence_def pack_HBHHB_def pack_H_def pack_B_def
      Let_def split: if_splits sum.splits)

lemma built_packet_facts:
  assumes "fst (build_packet s c P na) = Inr pkt"
  shows "length pkt = 10 + length P"
    and "field_u16 pkt 0 = STX"
    and "field_u16 pkt 3 = int (length P)"
    and "field_u16 pkt (8 + length P) = calculate_crc16 (take (8 + length P) pkt)"
proof -
  let ?h = "header_bytes na (int (length P)) (sequence s) c"
  let ?crc = "calculate_crc16 (?h @ P)"
  note v = build_packet_Inr [OF assms]
  have pkt: "pkt = ?h @ P @ le16 ?crc"
    using assms v by (simp add: build_packet_ok)
  have parsed: "parse_packet pkt = Inr (Some \<lparr>ctrl = (if na then 0 else 1),
          data_len = int (length P), seq = sequence s, cmd_id = c, data = P, crc16 = ?crc\<rparr>)"
    unfolding pkt using v by (intro parse_built) simp_all
  show len: "length pkt = 10 + length P"
    by (simp add: pkt header_bytes_length le16_def)
  from parsed show stx: "field_u16 pkt 0 = STX"
    by (simp add: parse_packet_eq split: if_splits)
  from parsed show n: "field_u16 pkt 3 = int (length P)"
    by (simp add: parse_packet_eq split: if_splits)
  from parsed have "field_u16 pkt (8 + nat (field_u16 pkt 3))
      = calculate_crc16 (take (8 + nat (field_u16 pkt 3)) pkt)"
    by (simp add: parse_packet_eq split: if_splits)
  then show "field_u16 pkt (8 + length P) = calculate_crc16 (take (8 + length P) pkt)"
    by (simp add: n)
qed


lemma changed_byte_rejected:
  assumes built: "fst (build_packet s c P na) = Inr pkt"
    and k: "k < length pkt" and b: "b \<noteq> pkt ! k"
    and grows: "k = 3 \<or> k = 4 \<Longrightarrow> uint (pkt ! k) < uint b"
  shows "parse_packet (pkt[k := b]) = Inr None"
proof -
  let ?n = "length P"
  let ?p = "pkt[k := b]"
  note f = built_packet_facts [OF built]
  have len: "length ?p = 10 + ?n"
    using f(1) by simp
  consider (stx) "k = 0 \<or> k = 1" | (len) "k = 3 \<or> k = 4"
    | (body) "k \<noteq> 0" "k \<noteq> 1" "k \<noteq> 3" "k \<noteq> 4" "k < 8 + ?n"
    | (crc) "8 + ?n \<le> k"
    by linarith
  then show ?thesis
  proof cases
    case stx
    have "field_u16 ?p 0 \<noteq> field_u16 pkt 0"
      using stx b f(1) by (intro field_u16_update_changes) simp_all
    then have "field_u16 ?p 0 \<noteq> STX"
      using f(2) by simp
    then show ?thesis
      by (simp add: parse_packet_eq)
  next
    case len
    have "field_u16 pkt 3 < field_u16 ?p 3"
      using len grows f(1) by (intro field_u16_update_grows) simp_all
    then have "int (length ?p) < 8 + field_u16 ?p 3 + 2"
      using f(1,3) by simp
    then show ?thesis
      by (simp add: parse_packet_eq)
  next
    case body
    have f0: "field_u16 ?p 0 = STX"
      using body f(2) by (simp add: field_u16_update_other)
    have f3: "field_u16 ?p 3 = int ?n"
      using body f(3) by (simp add: field_u16_update_other)
    have fc: "field_u16 ?p (8 + ?n) = calculate_crc16 (take (8 + ?n) pkt)"
      using body f(4) by (simp add: field_u16_update_other)
    have tk: "take (8 + ?n) ?p = (take (8 + ?n) pkt)[k := b]"
      by (rule take_update_swap)
    have "calculate_crc16 ((take (8 + ?n) pkt)[k := b]) \<noteq> calculate_crc16 (take (8 + ?n) pkt)"
      using body b f(1) by (intro calculate_crc16_detects_byte_change) simp_all
    then have "field_u16 ?p (8 + ?n) \<noteq> calculate_crc16 (take (8 + ?n) ?p)"
      using fc tk by simp
    then show ?thesis
      by (simp add: parse_packet_eq [of ?p] f0 f3)
  next
    case crc
    have f0: "field_u16 ?p 0 = STX"
      using crc f(2) by (simp add: field_u16_update_other)
    have f3: "field_u16 ?p 3 = int ?n"
      using crc f(3) by (simp add: field_u16_update_other)
    have tk: "take (8 + ?n) ?p = take (8 + ?n) pkt"
      using crc by (rule take_update_cancel)
    have "field_u16 ?p (8 + ?n) \<noteq> field_u16 pkt (8 + ?n)"
      using crc k b f(1) by (intro field_u16_update_changes) auto
    then have "field_u16 ?p (8 + ?n) \<noteq> calculate_crc16 (take (8 + ?n) ?p)"
      using f(4) tk by simp
    then show ?thesis
      by (simp add: parse_packet_eq [of ?p] f0 f3)
  qed
qed

text \<open>
  C2 (as amended). For every packet that \<open>build_packet\<close> returns and every bit position
  in it, except the bits of the two length bytes (offsets 3 and 4) that are 1 in the
  packet, flipping that bit gives a byte string on which \<open>parse_packet\<close> returns
  \<open>None\<close>.
\<close>

theorem single_bit_flip_rejected:
  assumes "fst (build_packet s c P na) = Inr pkt"
    and "i < 8 * length pkt"
    and "i div 8 = 3 \<or> i div 8 = 4 \<longrightarrow> \<not> bit (pkt ! (i div 8)) (i mod 8)"
  shows "parse_packet (flip_packet_bit pkt i) = Inr None"
proof -
  let ?k = "i div 8" and ?j = "i mod 8"
  have k: "?k < length pkt"
    using assms(2) by (simp add: less_mult_imp_div_less mult.commute)
  have j: "?j < 8"
    by simp
  have ne: "pkt ! ?k XOR push_bit ?j 1 \<noteq> pkt ! ?k"
    using j by (rule byte_flip_neq)
  have up: "uint (pkt ! ?k) < uint (pkt ! ?k XOR push_bit ?j 1)" if "?k = 3 \<or> ?k = 4"
    using that assms(3) j by (intro byte_flip_up) simp_all
  show ?thesis
    unfolding flip_packet_bit_def
    using assms(1) k ne up by (rule changed_byte_rejected)
qed

theorem single_bit_flip_rejected_witness:
  "parse_packet (flip_packet_bit [0x55, 0x66, 0x01, 0x01, 0x00, 0x00, 0x00, 0x00, 0x00, 0x59, 0x8b] 70)
     = Inr None"
proof -
  let ?p = "[0x55, 0x66, 0x01, 0x01, 0x00, 0x00, 0x00, 0x00, 0x00, 0x59, 0x8b] :: byte list"
  have b: "fst (build_packet SIYIProtocol_init HEARTBEAT [0x00] False) = Inr ?p"
    by code_simp
  have i: "70 < 8 * length ?p"
    by simp
  have l: "(70 :: nat) div 8 = 3 \<or> (70 :: nat) div 8 = 4 \<longrightarrow> \<not> bit (?p ! (70 div 8)) (70 mod 8)"
    by simp
  show ?thesis
    using b i l by (rule single_bit_flip_rejected)
qed

text \<open>
  C2 as stated, for every bit position, fails: clearing a bit of the length field makes
  the parser read a shorter packet, whose checksum it takes from what were payload bytes.
  The heartbeat packet with payload 45 d4 has length field 2; with bit 1 of the byte at
  offset 3 cleared, it parses as a packet with an empty payload.
\<close>

theorem length_bit_flip_accepted:
  "fst (build_packet SIYIProtocol_init HEARTBEAT [0x45, 0xd4] False)
     = Inr [0x55, 0x66, 0x01, 0x02, 0x00, 0x00, 0x00, 0x00, 0x45, 0xd4, 0xa1, 0xd8]
   \<and> flip_packet_bit [0x55, 0x66, 0x01, 0x02, 0x00, 0x00, 0x00, 0x00, 0x45, 0xd4, 0xa1, 0xd8] 25
     = [0x55, 0x66, 0x01, 0x00, 0x00, 0x00, 0x00, 0x00, 0x45, 0xd4, 0xa1, 0xd8]
   \<and> parse_packet (flip_packet_bit
         [0x55, 0x66, 0x01, 0x02, 0x00, 0x00, 0x00, 0x00, 0x45, 0xd4, 0xa1, 0xd8] 25)
     = Inr (Some \<lparr>ctrl = 1, data_len = 0, seq = 0, cmd_id = 0, data = [], crc16 = 0xd445\<rparr>)"
  by code_simp

section \<open>Properties of the PID controller\<close>

text \<open>
  C6. For every controller state, error and clock reading, the first \<open>update\<close> after
  \<open>reset\<close>, and the first after construction, measures \<open>dt = 0\<close>; its derivative
  term is 0, it leaves the integral accumulator as it was, and its output is
  \<open>Kp * e + Ki * integral\<close> clamped to the output limits.
\<close>

theorem pid_first_update_after_reset_or_construction:
  "PID_dt (PID_reset c) t = 0
   \<and> PID_d_term (PID_reset c) (PID_dt (PID_reset c) t) e = 0
   \<and> integral (snd (PID_update (PID_reset c) t e)) = integral (PID_reset c)
   \<and> fst (PID_update (PID_reset c) t e)
       = max (min (kp c * e + ki c * integral (PID_reset c)) (max_out c)) (min_out c)
   \<and> PID_dt (PIDController_init p i d lims) t = 0
   \<and> PID_d_term (PIDController_init p i d lims) (PID_dt (PIDController_init p i d lims) t) e = 0
   \<and> integral (snd (PID_update (PIDController_init p i d lims) t e))
       = integral (PIDController_init p i d lims)
   \<and> fst (PID_update (PIDController_init p i d lims) t e)
       = max (min (p * e + i * integral (PIDController_init p i d lims)) (snd lims)) (fst lims)"
  by (simp add: PID_update_def PID_dt_def PID_d_term_def PID_reset_def PIDController_init_def
      Let_def)

section \<open>Properties of the gimbal controller\<close>

subsection \<open>Commands while disconnected\<close>

text \<open>
  C9. Without a connected session \<open>send_packet\<close> returns \<open>False\<close> and leaves the
  connection as it was: nothing is appended to a socket and the sequence counter keeps
  its value. With the controller's \<open>connected\<close> flag down, \<open>update_tracking\<close>,
  \<open>stop\<close>, \<open>move_gimbal\<close> and \<open>center\<close> return without an exception and leave
  the controller, with its SDK connection, as it was.
\<close>

theorem disconnected_commands_are_noops:
  "(\<not> conn_connected c \<or> socket c = None \<longrightarrow> send_packet c cmd d na = (False, c))
   \<and> (\<not> gc_connected g \<longrightarrow>
        update_tracking g t_yaw t_pitch now error_x error_y = (Inr None, g)
        \<and> gimbal_stop g = (Inr (), g)
        \<and> move_gimbal g yaw_speed pitch_speed = (Inr False, g)
        \<and> gimbal_center g = g)"
  by (simp add: send_packet_def update_tracking_def gimbal_stop_def move_gimbal_def
      gimbal_center_def)

theorem disconnected_commands_are_noops_witness:
  "send_packet SIYIConnection_init GIMBAL_ROTATION [10, 0] False = (False, SIYIConnection_init)
   \<and> update_tracking offline_gimbal 1 1 1 50 (- 30) = (Inr None, offline_gimbal)
   \<and> gimbal_stop offline_gimbal = (Inr (), offline_gimbal)
   \<and> move_gimbal offline_gimbal 10 0 = (Inr False, offline_gimbal)
   \<and> gimbal_center offline_gimbal = offline_gimbal"
proof -
  have c: "\<not> conn_connected SIYIConnection_init \<or> socket SIYIConnection_init = None"
    by (simp add: SIYIConnection_init_def)
  have g: "\<not> gc_connected offline_gimbal"
    by (simp add: offline_gimbal_def GimbalController_init_def)
  show ?thesis
    using c g
      disconnected_commands_are_noops [where c = SIYIConnection_init and g = offline_gimbal
        and cmd = GIMBAL_ROTATION and d = "[10, 0]" and na = False and t_yaw = 1 and t_pitch = 1
        and now = 1 and error_x = 50 and error_y = "- 30" and yaw_speed = 10 and pitch_speed = 0]
    by blast
qed


subsection \<open>The deadzone\<close>

lemma pack_bb_clamped:
  "pack_bb (max (- 100) (min 100 y)) (max (- 100) (min 100 p))
     = Inr [word_of_int (max (- 100) (min 100 y)), word_of_int (max (- 100) (min 100 p))]"
  by (auto simp add: pack_bb_def)

lemma rotate_gimbal_returns: "\<exists>b c'. rotate_gimbal c y p = (Inr b, c')"
  by (simp add: rotate_gimbal_def Let_def pack_bb_clamped split_beta)

lemma gimbal_stop_connected:
  "gc_connected g \<Longrightarrow> \<exists>c'. gimbal_stop g = (Inr (), g\<lparr>sdk := c'\<rparr>)"
  using rotate_gimbal_returns [of "sdk g" 0 0]
  by (auto simp add: gimbal_stop_def)

lemma update_tracking_connected:
  assumes "gc_connected g"
  shows "\<exists>c' lm. update_tracking g t_yaw t_pitch now ex ey =
           (Inr (Some (fst (yaw_control g t_yaw ex),
                       fst (pitch_control (snd (yaw_control g t_yaw ex)) t_pitch ey))),
            (snd (pitch_control (snd (yaw_control g t_yaw ex)) t_pitch ey))
              \<lparr>sdk := c', last_move_time := lm\<rparr>)"
proof -
  let ?g1 = "snd (yaw_control g t_yaw ex)"
  let ?g2 = "snd (pitch_control ?g1 t_pitch ey)"
  let ?ys = "fst (yaw_control g t_yaw ex)"
  let ?ps = "fst (pitch_control ?g1 t_pitch ey)"
  have c1: "gc_connected ?g1"
    using assms by (simp add: yaw_control_def split_beta)
  then have c2: "gc_connected ?g2"
    by (simp add: pitch_control_def split_beta)
  have same: "?g2 = ?g2\<lparr>sdk := sdk ?g2, last_move_time := last_move_time ?g2\<rparr>"
    by simp
  obtain b c' where rot: "rotate_gimbal (sdk ?g2) ?ys ?ps = (Inr b, c')"
    using rotate_gimbal_returns by blast
  obtain c'' where stop: "gimbal_stop ?g2 = (Inr (), ?g2\<lparr>sdk := c''\<rparr>)"
    using gimbal_stop_connected [OF c2] by blast
  have upd: "update_tracking g t_yaw t_pitch now ex ey =
         (if now - last_move_time ?g2 > move_interval ?g2
          then (if ?ys \<noteq> 0 \<or> ?ps \<noteq> 0
                then (Inr (Some (?ys, ?ps)), ?g2\<lparr>sdk := c', last_move_time := now\<rparr>)
                else (Inr (Some (?ys, ?ps)), ?g2\<lparr>sdk := c'', last_move_time := now\<rparr>))
          else (Inr (Some (?ys, ?ps)), ?g2))"
    using assms rot stop by (simp add: update_tracking_def split_beta Let_def)
  show ?thesis
  proof (cases "now - last_move_time ?g2 > move_interval ?g2")
    case True
    then show ?thesis unfolding upd by auto
  next
    case False
    then show ?thesis unfolding upd using same by (metis (full_types))
  qed
qed

lemma yaw_control_fields:
  "pid_pitch (snd (yaw_control g t ex)) = pid_pitch g"
  "deadzone (snd (yaw_control g t ex)) = deadzone g"
  "gc_connected (snd (yaw_control g t ex)) = gc_connected g"
  by (simp_all add: yaw_control_def split_beta)

lemma pitch_control_fields:
  "pid_yaw (snd (pitch_control g t ey)) = pid_yaw g"
  "deadzone (snd (pitch_control g t ey)) = deadzone g"
  "gc_connected (snd (pitch_control g t ey)) = gc_connected g"
  by (simp_all add: pitch_control_def split_beta)

lemma yaw_control_deadzone:
  "\<bar>ex\<bar> \<le> deadzone g \<Longrightarrow> yaw_control g t ex = (0, g\<lparr>pid_yaw := PID_reset (pid_yaw g)\<rparr>)"
  by (simp add: yaw_control_def)

lemma pitch_control_deadzone:
  "\<bar>ey\<bar> \<le> deadzone g \<Longrightarrow> pitch_control g t ey = (0, g\<lparr>pid_pitch := PID_reset (pid_pitch g)\<rparr>)"
  by (simp add: pitch_control_def)

lemma update_tracking_fields:
  "deadzone (snd (update_tracking g t_yaw t_pitch now ex ey)) = deadzone g"
  "gc_connected (snd (update_tracking g t_yaw t_pitch now ex ey)) = gc_connected g"
proof -
  show "deadzone (snd (update_tracking g t_yaw t_pitch now ex ey)) = deadzone g"
  proof (cases "gc_connected g")
    case True
    from update_tracking_connected [OF True, of t_yaw t_pitch now ex ey]
    show ?thesis by (auto simp add: yaw_control_fields pitch_control_fields)
  next
    case False
    then show ?thesis by (simp add: update_tracking_def)
  qed
  show "gc_connected (snd (update_tracking g t_yaw t_pitch now ex ey)) = gc_connected g"
  proof (cases "gc_connected g")
    case True
    from update_tracking_connected [OF True, of t_yaw t_pitch now ex ey]
    show ?thesis by (auto simp add: yaw_control_fields pitch_control_fields)
  next
    case False
    then show ?thesis by (simp add: update_tracking_def)
  qed
qed

lemma update_tracking_yaw_deadzone:
  assumes "gc_connected g" and "\<bar>ex\<bar> \<le> deadzone g"
  shows "(\<exists>ps. fst (update_tracking g t_yaw t_pitch now ex ey) = Inr (Some (0, ps)))
         \<and> pid_yaw (snd (update_tracking g t_yaw t_pitch now ex ey)) = PID_reset (pid_yaw g)"
  using update_tracking_connected [OF assms(1), of t_yaw t_pitch now ex ey] assms(2)
  by (auto simp add: yaw_control_deadzone pitch_control_fields)

lemma update_tracking_pitch_deadzone:
  assumes "gc_connected g" and "\<bar>ey\<bar> \<le> deadzone g"
  shows "(\<exists>ys. fst (update_tracking g t_yaw t_pitch now ex ey) = Inr (Some (ys, 0)))
         \<and> pid_pitch (snd (update_tracking g t_yaw t_pitch now ex ey)) = PID_reset (pid_pitch g)"
proof -
  have dz: "\<bar>ey\<bar> \<le> deadzone (snd (yaw_control g t_yaw ex))"
    using assms(2) by (simp add: yaw_control_fields)
  show ?thesis
    using update_tracking_connected [OF assms(1), of t_yaw t_pitch now ex ey]
    by (auto simp add: pitch_control_deadzone [OF dz] yaw_control_fields)
qed


lemma update_tracking_integral_yaw:
  assumes "\<bar>ex\<bar> \<le> deadzone g"
  shows "\<bar>integral (pid_yaw (snd (update_tracking g t_yaw t_pitch now ex ey)))\<bar>
           \<le> \<bar>integral (pid_yaw g)\<bar>"
proof (cases "gc_connected g")
  case True
  then show ?thesis
    using update_tracking_yaw_deadzone [OF True assms] by (simp add: PID_reset_def)
next
  case False
  then show ?thesis by (simp add: update_tracking_def)
qed

lemma update_tracking_integral_pitch:
  assumes "\<bar>ey\<bar> \<le> deadzone g"
  shows "\<bar>integral (pid_pitch (snd (update_tracking g t_yaw t_pitch now ex ey)))\<bar>
           \<le> \<bar>integral (pid_pitch g)\<bar>"
proof (cases "gc_connected g")
  case True
  then show ?thesis
    using update_tracking_pitch_deadzone [OF True assms] by (simp add: PID_reset_def)
next
  case False
  then show ?thesis by (simp add: update_tracking_def)
qed

lemma tracking_steps_snoc:
  "tracking_steps g (steps @ [(t_yaw, t_pitch, now, ex, ey)])
     = snd (update_tracking (tracking_steps g steps) t_yaw t_pitch now ex ey)"
  by (simp add: tracking_steps_def)

lemma tracking_steps_deadzone: "deadzone (tracking_steps g steps) = deadzone g"
proof (induction steps rule: rev_induct)
  case Nil
  then show ?case by (simp add: tracking_steps_def)
next
  case (snoc s steps)
  obtain t_yaw t_pitch now ex ey where "s = (t_yaw, t_pitch, now, ex, ey)"
    by (cases s)
  then show ?case
    using snoc by (simp add: tracking_steps_snoc update_tracking_fields)
qed

lemma tracking_steps_integral_yaw:
  assumes "\<forall>s \<in> set steps. \<bar>step_error_x s\<bar> \<le> deadzone g"
  shows "\<bar>integral (pid_yaw (tracking_steps g steps))\<bar> \<le> \<bar>integral (pid_yaw g)\<bar>"
  using assms
proof (induction steps rule: rev_induct)
  case Nil
  then show ?case by (simp add: tracking_steps_def)
next
  case (snoc s steps)
  obtain t_yaw t_pitch now ex ey where s: "s = (t_yaw, t_pitch, now, ex, ey)"
    by (cases s)
  have "\<bar>ex\<bar> \<le> deadzone (tracking_steps g steps)"
    using snoc.prems s by (simp add: tracking_steps_deadzone step_error_x_def)
  then have "\<bar>integral (pid_yaw (tracking_steps g (steps @ [s])))\<bar>
               \<le> \<bar>integral (pid_yaw (tracking_steps g steps))\<bar>"
    unfolding s tracking_steps_snoc by (rule update_tracking_integral_yaw)
  moreover have "\<bar>integral (pid_yaw (tracking_steps g steps))\<bar> \<le> \<bar>integral (pid_yaw g)\<bar>"
    using snoc by simp
  ultimately show ?case by linarith
qed

lemma tracking_steps_integral_pitch:
  assumes "\<forall>s \<in> set steps. \<bar>step_error_y s\<bar> \<le> deadzone g"
  shows "\<bar>integral (pid_pitch (tracking_steps g steps))\<bar> \<le> \<bar>integral (pid_pitch g)\<bar>"
  using assms
proof (induction steps rule: rev_induct)
  case Nil
  then show ?case by (simp add: tracking_steps_def)
next
  case (snoc s steps)
  obtain t_yaw t_pitch now ex ey where s: "s = (t_yaw, t_pitch, now, ex, ey)"
    by (cases s)
  have "\<bar>ey\<bar> \<le> deadzone (tracking_steps g steps)"
    using snoc.prems s by (simp add: tracking_steps_deadzone step_error_y_def)
  then have "\<bar>integral (pid_pitch (tracking_steps g (steps @ [s])))\<bar>
               \<le> \<bar>integral (pid_pitch (tracking_steps g steps))\<bar>"
    unfolding s tracking_steps_snoc by (rule update_tracking_integral_pitch)
  moreover have "\<bar>integral (pid_pitch (tracking_steps g steps))\<bar> \<le> \<bar>integral (pid_pitch g)\<bar>"
    using snoc by simp
  ultimately show ?case by linarith
qed

text \<open>
  C7 (as amended). On a connected controller, an error with \<open>|error| \<le> deadzone\<close> on
  an axis makes \<open>update_tracking\<close> return speed 0 for that axis and reset that axis's
  PID controller. On a controller that is not connected, \<open>update_tracking\<close> returns
  nothing and leaves the controller, with both PID controllers, as it was. Connected or
  not, a run of updates whose errors on an axis all lie in the deadzone never makes that
  axis's integral accumulator larger in magnitude.
\<close>

theorem deadzone_zero_speed_no_windup:
  "(gc_connected g \<and> \<bar>ex\<bar> \<le> deadzone g \<longrightarrow>
      (\<exists>ps. fst (update_tracking g t_yaw t_pitch now ex ey) = Inr (Some (0, ps)))
      \<and> pid_yaw (snd (update_tracking g t_yaw t_pitch now ex ey)) = PID_reset (pid_yaw g))
   \<and> (gc_connected g \<and> \<bar>ey\<bar> \<le> deadzone g \<longrightarrow>
      (\<exists>ys. fst (update_tracking g t_yaw t_pitch now ex ey) = Inr (Some (ys, 0)))
      \<and> pid_pitch (snd (update_tracking g t_yaw t_pitch now ex ey)) = PID_reset (pid_pitch g))
   \<and> (\<not> gc_connected g \<longrightarrow>
      update_tracking g t_yaw t_pitch now ex ey = (Inr None, g))
   \<and> ((\<forall>s \<in> set steps. \<bar>step_error_x s\<bar> \<le> deadzone g) \<longrightarrow>
      \<bar>integral (pid_yaw (tracking_steps g steps))\<bar> \<le> \<bar>integral (pid_yaw g)\<bar>)
   \<and> ((\<forall>s \<in> set steps. \<bar>step_error_y s\<bar> \<le> deadzone g) \<longrightarrow>
      \<bar>integral (pid_pitch (tracking_steps g steps))\<bar> \<le> \<bar>integral (pid_pitch g)\<bar>)"
proof -
  have off: "\<not> gc_connected g \<longrightarrow> update_tracking g t_yaw t_pitch now ex ey = (Inr None, g)"
    by (simp add: update_tracking_def)
  show ?thesis
    using update_tracking_yaw_deadzone [of g ex t_yaw t_pitch now ey]
      update_tracking_pitch_deadzone [of g ey t_yaw t_pitch now ex]
      tracking_steps_integral_yaw [of steps g] tracking_steps_integral_pitch [of steps g] off
    by blast
qed

theorem deadzone_zero_speed_no_windup_witness:
  "(\<exists>ps. fst (update_tracking online_gimbal 2 2 2 5 (- 7)) = Inr (Some (0, ps)))
   \<and> pid_yaw (snd (update_tracking online_gimbal 2 2 2 5 (- 7))) = PID_reset (pid_yaw online_gimbal)
   \<and> (\<exists>ys. fst (update_tracking online_gimbal 2 2 2 5 (- 7)) = Inr (Some (ys, 0)))
   \<and> pid_pitch (snd (update_tracking online_gimbal 2 2 2 5 (- 7)))
       = PID_reset (pid_pitch online_gimbal)
   \<and> \<bar>integral (pid_yaw (tracking_steps online_gimbal [(2, 2, 2, 5, - 7), (3, 3, 3, - 20, 20)]))\<bar>
       \<le> \<bar>integral (pid_yaw online_gimbal)\<bar>
   \<and> \<bar>integral (pid_pitch (tracking_steps online_gimbal [(2, 2, 2, 5, - 7), (3, 3, 3, - 20, 20)]))\<bar>
       \<le> \<bar>integral (pid_pitch online_gimbal)\<bar>
   \<and> update_tracking dropped_gimbal 2 2 2 5 (- 7) = (Inr None, dropped_gimbal)"
proof -
  have off: "\<not> gc_connected dropped_gimbal"
    by (simp add: dropped_gimbal_def)
  have c: "gc_connected online_gimbal" and d: "deadzone online_gimbal = 20"
    by (simp_all add: online_gimbal_def GimbalController_init_def)
  have x: "\<forall>s \<in> set [(2, 2, 2, 5, - 7), (3, 3, 3, - 20, 20)].
             \<bar>step_error_x s\<bar> \<le> deadzone online_gimbal"
    and y: "\<forall>s \<in> set [(2, 2, 2, 5, - 7), (3, 3, 3, - 20, 20)].
             \<bar>step_error_y s\<bar> \<le> deadzone online_gimbal"
    by (simp_all add: d step_error_x_def step_error_y_def)
  have e: "\<bar>5 :: real\<bar> \<le> deadzone online_gimbal" "\<bar>- 7 :: real\<bar> \<le> deadzone online_gimbal"
    by (simp_all add: d)
  show ?thesis
    using c x y e off
      deadzone_zero_speed_no_windup [where g = online_gimbal and ex = 5 and ey = "- 7"
        and t_yaw = 2 and t_pitch = 2 and now = 2
        and steps = "[(2, 2, 2, 5, - 7), (3, 3, 3, - 20, 20)]"]
      deadzone_zero_speed_no_windup [where g = dropped_gimbal and ex = 5 and ey = "- 7"
        and t_yaw = 2 and t_pitch = 2 and now = 2 and steps = "[]"]
    by blast
qed

text \<open>
  C7 as stated, for every controller state, fails: on a controller whose \<open>connected\<close>
  flag is down, \<open>update_tracking\<close> returns nothing, computes no speed and leaves the
  wound-up yaw PID as it is.
\<close>

theorem deadzone_update_while_disconnected:
  "\<bar>0 :: real\<bar> \<le> deadzone dropped_gimbal
   \<and> fst (update_tracking dropped_gimbal 2 2 2 0 0) = Inr None
   \<and> integral (pid_yaw (snd (update_tracking dropped_gimbal 2 2 2 0 0))) = 50
   \<and> pid_yaw (snd (update_tracking dropped_gimbal 2 2 2 0 0))
       \<noteq> PID_reset (pid_yaw dropped_gimbal)"
  by (simp add: update_tracking_def dropped_gimbal_def online_gimbal_def
      GimbalController_init_def PID_reset_def)

section \<open>Properties of the target tracker\<close>

subsection \<open>The selection loop\<close>

lemma closest_target_from_some:
  "closest_target ts mx my (Some i, Some m) = (b', m') \<Longrightarrow>
     \<exists>d. m' = Some d \<and> d \<le> m \<and> (\<forall>u \<in> set ts. d \<le> target_dist u mx my)
       \<and> ((b' = Some i \<and> d = m)
          \<or> (\<exists>j < length ts. b' = Some (track_id (ts ! j)) \<and> d = target_dist (ts ! j) mx my
                \<and> d < m \<and> (\<forall>k < j. d < target_dist (ts ! k) mx my)))"
proof (induction ts arbitrary: i m)
  case Nil
  then show ?case by simp
next
  case (Cons t ts)
  let ?dt = "target_dist t mx my"
  show ?case
  proof (cases "?dt < m")
    case True
    with Cons.prems have "closest_target ts mx my (Some (track_id t), Some ?dt) = (b', m')"
      by simp
    from Cons.IH [OF this] obtain d where d: "m' = Some d" "d \<le> ?dt"
      "\<forall>u \<in> set ts. d \<le> target_dist u mx my"
      and alt: "(b' = Some (track_id t) \<and> d = ?dt)
         \<or> (\<exists>j < length ts. b' = Some (track_id (ts ! j)) \<and> d = target_dist (ts ! j) mx my
                \<and> d < ?dt \<and> (\<forall>k < j. d < target_dist (ts ! k) mx my))"
      by blast
    from alt have "\<exists>j < length (t # ts). b' = Some (track_id ((t # ts) ! j))
         \<and> d = target_dist ((t # ts) ! j) mx my \<and> d < m
         \<and> (\<forall>k < j. d < target_dist ((t # ts) ! k) mx my)"
    proof
      assume "b' = Some (track_id t) \<and> d = ?dt"
      then have "0 < length (t # ts) \<and> b' = Some (track_id ((t # ts) ! 0))
         \<and> d = target_dist ((t # ts) ! 0) mx my \<and> d < m
         \<and> (\<forall>k < 0. d < target_dist ((t # ts) ! k) mx my)"
        using True by simp
      then show ?thesis by blast
    next
      assume "\<exists>j < length ts. b' = Some (track_id (ts ! j)) \<and> d = target_dist (ts ! j) mx my
                \<and> d < ?dt \<and> (\<forall>k < j. d < target_dist (ts ! k) mx my)"
      then obtain j where j: "j < length ts" "b' = Some (track_id (ts ! j))"
        "d = target_dist (ts ! j) mx my" "d < ?dt" "\<forall>k < j. d < target_dist (ts ! k) mx my"
        by blast
      have "\<forall>k < Suc j. d < target_dist ((t # ts) ! k) mx my"
        using j(4,5) by (auto simp add: nth_Cons' )
      then have "Suc j < length (t # ts) \<and> b' = Some (track_id ((t # ts) ! Suc j))
         \<and> d = target_dist ((t # ts) ! Suc j) mx my \<and> d < m
         \<and> (\<forall>k < Suc j. d < target_dist ((t # ts) ! k) mx my)"
        using j True by simp
      then show ?thesis by blast
    qed
    with d True show ?thesis by auto
  next
    case False
    with Cons.prems have "closest_target ts mx my (Some i, Some m) = (b', m')"
      by simp
    from Cons.IH [OF this] obtain d where d: "m' = Some d" "d \<le> m"
      "\<forall>u \<in> set ts. d \<le> target_dist u mx my"
      and alt: "(b' = Some i \<and> d = m)
         \<or> (\<exists>j < length ts. b' = Some (track_id (ts ! j)) \<and> d = target_dist (ts ! j) mx my
                \<and> d < m \<and> (\<forall>k < j. d < target_dist (ts ! k) mx my))"
      by blast
    from alt have "(b' = Some i \<and> d = m)
       \<or> (\<exists>j < length (t # ts). b' = Some (track_id ((t # ts) ! j))
         \<and> d = target_dist ((t # ts) ! j) mx my \<and> d < m
         \<and> (\<forall>k < j. d < target_dist ((t # ts) ! k) mx my))"
    proof
      assume "b' = Some i \<and> d = m"
      then show ?thesis by simp
    next
      assume "\<exists>j < length ts. b' = Some (track_id (ts ! j)) \<and> d = target_dist (ts ! j) mx my
                \<and> d < m \<and> (\<forall>k < j. d < target_dist (ts ! k) mx my)"
      then obtain j where j: "j < length ts" "b' = Some (track_id (ts ! j))"
        "d = target_dist (ts ! j) mx my" "d < m" "\<forall>k < j. d < target_dist (ts ! k) mx my"
        by blast
      have "d < ?dt"
        using j(4) False by simp
      then have "\<forall>k < Suc j. d < target_dist ((t # ts) ! k) mx my"
        using j(5) by (auto simp add: nth_Cons')
      then have "Suc j < length (t # ts) \<and> b' = Some (track_id ((t # ts) ! Suc j))
         \<and> d = target_dist ((t # ts) ! Suc j) mx my \<and> d < m
         \<and> (\<forall>k < Suc j. d < target_dist ((t # ts) ! k) mx my)"
        using j by simp
      then show ?thesis by blast
    qed
    moreover have "d \<le> ?dt"
      using d(2) False by simp
    ultimately show ?thesis
      using d by auto
  qed
qed

lemma closest_target_initial:
  assumes "closest_target ts mx my (None, None) = (b', m')"
  shows "(ts = [] \<longrightarrow> b' = None \<and> m' = None)
       \<and> (ts \<noteq> [] \<longrightarrow>
            (\<exists>j < length ts. b' = Some (track_id (ts ! j))
                \<and> m' = Some (target_dist (ts ! j) mx my)
                \<and> (\<forall>u \<in> set ts. target_dist (ts ! j) mx my \<le> target_dist u mx my)
                \<and> (\<forall>k < j. target_dist (ts ! j) mx my < target_dist (ts ! k) mx my)))"
proof (cases ts)
  case Nil
  with assms show ?thesis by simp
next
  case (Cons t rest)
  let ?dt = "target_dist t mx my"
  from Cons assms have "closest_target rest mx my (Some (track_id t), Some ?dt) = (b', m')"
    by simp
  from closest_target_from_some [OF this] obtain d where d: "m' = Some d" "d \<le> ?dt"
      "\<forall>u \<in> set rest. d \<le> target_dist u mx my"
      and alt: "(b' = Some (track_id t) \<and> d = ?dt)
         \<or> (\<exists>j < length rest. b' = Some (track_id (rest ! j)) \<and> d = target_dist (rest ! j) mx my
                \<and> d < ?dt \<and> (\<forall>k < j. d < target_dist (rest ! k) mx my))"
    by blast
  have all: "\<forall>u \<in> set (t # rest). d \<le> target_dist u mx my"
    using d(2,3) by simp
  from alt have "\<exists>j < length (t # rest). b' = Some (track_id ((t # rest) ! j))
         \<and> d = target_dist ((t # rest) ! j) mx my
         \<and> (\<forall>k < j. d < target_dist ((t # rest) ! k) mx my)"
  proof
    assume "b' = Some (track_id t) \<and> d = ?dt"
    then have "0 < length (t # rest) \<and> b' = Some (track_id ((t # rest) ! 0))
         \<and> d = target_dist ((t # rest) ! 0) mx my
         \<and> (\<forall>k < 0. d < target_dist ((t # rest) ! k) mx my)"
      by simp
    then show ?thesis by blast
  next
    assume "\<exists>j < length rest. b' = Some (track_id (rest ! j)) \<and> d = target_dist (rest ! j) mx my
                \<and> d < ?dt \<and> (\<forall>k < j. d < target_dist (rest ! k) mx my)"
    then obtain j where j: "j < length rest" "b' = Some (track_id (rest ! j))"
        "d = target_dist (rest ! j) mx my" "d < ?dt" "\<forall>k < j. d < target_dist (rest ! k) mx my"
      by blast
    have "\<forall>k < Suc j. d < target_dist ((t # rest) ! k) mx my"
      using j(4,5) by (auto simp add: nth_Cons')
    then have "Suc j < length (t # rest) \<and> b' = Some (track_id ((t # rest) ! Suc j))
         \<and> d = target_dist ((t # rest) ! Suc j) mx my
         \<and> (\<forall>k < Suc j. d < target_dist ((t # rest) ! k) mx my)"
      using j by simp
    then show ?thesis by blast
  qed
  then obtain j where "j < length (t # rest)" "b' = Some (track_id ((t # rest) ! j))"
    "d = target_dist ((t # rest) ! j) mx my"
    "\<forall>k < j. d < target_dist ((t # rest) ! k) mx my"
    by blast
  with all d(1) show ?thesis
    unfolding Cons by blast
qed

lemma sqrt_square_numeral [simp]: "sqrt 25 = 5" "sqrt 3600 = 60" "sqrt 22500 = 150" "sqrt 10000 = 100"
proof -
  have "sqrt ((5::real)\<^sup>2) = 5" "sqrt ((60::real)\<^sup>2) = 60" "sqrt ((150::real)\<^sup>2) = 150"
    "sqrt ((100::real)\<^sup>2) = 100"
    by (simp_all only: real_sqrt_abs)
  then show "sqrt 25 = 5" "sqrt 3600 = 60" "sqrt 22500 = 150" "sqrt 10000 = 100"
    by simp_all
qed

subsection \<open>Identity-lock selection\<close>

text \<open>
  C8 (as amended). With the BYTE backend, a detector and a detection pass that returns at
  least one detection, \<open>init\<close> looks at the tracks the identity tracker returns for
  that pass. When some track's centroid is less than 100 pixels from the centroid of
  the requested box, tracking becomes active and the remembered identity is that of the
  track at the least distance, the first in the tracker's order when several tracks are
  at that distance; the distance is below 100. Otherwise tracking is inactive, the
  remembered identity is left as it was, and the failure to match is printed. The
  witness locks identity 1 among candidates at 5, 60 and 150 pixels, and identity 1
  again when two candidates are both at 5 pixels.
\<close>

theorem identity_lock_selection:
  assumes "tracker_type self = ''BYTE''" and "detector self = Some detect"
    and "detect frame \<noteq> []"
    and "tracks = bt_update (format_dets (detect frame))"
    and "box_centre box = (mx, my)"
    and "tracker_init self bt_update frame box = (self', printed)"
  shows "if \<exists>t \<in> set tracks. target_dist t mx my < 100
         then tracking_active self'
              \<and> (\<exists>j < length tracks. tracked_id self' = Some (track_id (tracks ! j))
                    \<and> target_dist (tracks ! j) mx my < 100
                    \<and> (\<forall>u \<in> set tracks.
                          target_dist (tracks ! j) mx my \<le> target_dist u mx my)
                    \<and> (\<forall>k < j. target_dist (tracks ! j) mx my < target_dist (tracks ! k) mx my))
         else \<not> tracking_active self' \<and> tracked_id self' = tracked_id self
              \<and> CouldNotMatch \<in> set printed"
proof -
  obtain x y w h where box: "box = (x, y, w, h)"
    by (cases box) auto
  have m: "mx = x + w / 2" "my = y + h / 2"
    using assms(5) by (simp_all add: box box_centre_def)
  obtain b' m' where sel: "closest_target tracks mx my (None, None) = (b', m')"
    by (cases "closest_target tracks mx my (None, None)")
  have fmt: "format_dets (detect frame) \<noteq> []"
    using assms(3) by (simp add: format_dets_def)
  let ?s1 = "self\<lparr>tracker := Some (create_tracker self), tracking_active := True\<rparr>"
  have "tracker_init self bt_update frame box =
          (case b' of
             Some i \<Rightarrow>
               if (case m' of None \<Rightarrow> False | Some d \<Rightarrow> d < 100)
               then (?s1\<lparr>tracked_id := Some i\<rparr>, [LockedOnId i, TrackerInitialized ''BYTE''])
               else (?s1\<lparr>tracking_active := False\<rparr>, [CouldNotMatch, TrackerInitialized ''BYTE''])
           | None \<Rightarrow> (?s1\<lparr>tracking_active := False\<rparr>, [CouldNotMatch, TrackerInitialized ''BYTE'']))"
    using assms(1,2) fmt sel
    by (simp add: tracker_init_def Let_def box m assms(4) [symmetric] split: option.splits)
  then have res: "(self', printed) =
          (case b' of
             Some i \<Rightarrow>
               if (case m' of None \<Rightarrow> False | Some d \<Rightarrow> d < 100)
               then (?s1\<lparr>tracked_id := Some i\<rparr>, [LockedOnId i, TrackerInitialized ''BYTE''])
               else (?s1\<lparr>tracking_active := False\<rparr>, [CouldNotMatch, TrackerInitialized ''BYTE''])
           | None \<Rightarrow> (?s1\<lparr>tracking_active := False\<rparr>, [CouldNotMatch, TrackerInitialized ''BYTE'']))"
    using assms(6) by simp
  note spec = closest_target_initial [OF sel]
  show ?thesis
  proof (cases "\<exists>t \<in> set tracks. target_dist t mx my < 100")
    case True
    then have ne: "tracks \<noteq> []" by auto
    with spec obtain j where j: "j < length tracks" "b' = Some (track_id (tracks ! j))"
      "m' = Some (target_dist (tracks ! j) mx my)"
      "\<forall>u \<in> set tracks. target_dist (tracks ! j) mx my \<le> target_dist u mx my"
      "\<forall>k < j. target_dist (tracks ! j) mx my < target_dist (tracks ! k) mx my"
      by blast
    from True j(4) have lt: "target_dist (tracks ! j) mx my < 100"
      by fastforce
    from res j lt have "self' = ?s1\<lparr>tracked_id := Some (track_id (tracks ! j))\<rparr>"
      by simp
    then have "tracking_active self' \<and> tracked_id self' = Some (track_id (tracks ! j))"
      by simp
    with j(1,4,5) lt have "tracking_active self'
        \<and> (\<exists>j < length tracks. tracked_id self' = Some (track_id (tracks ! j))
              \<and> target_dist (tracks ! j) mx my < 100
              \<and> (\<forall>u \<in> set tracks.
                    target_dist (tracks ! j) mx my \<le> target_dist u mx my)
              \<and> (\<forall>k < j. target_dist (tracks ! j) mx my < target_dist (tracks ! k) mx my))"
      by blast
    then show ?thesis
      using True by simp
  next
    case False
    have "self' = ?s1\<lparr>tracking_active := False\<rparr> \<and> printed = [CouldNotMatch, TrackerInitialized ''BYTE'']"
    proof (cases tracks)
      case Nil
      with spec res show ?thesis by simp
    next
      case (Cons a list)
      with spec obtain j where j: "j < length tracks" "b' = Some (track_id (tracks ! j))"
        "m' = Some (target_dist (tracks ! j) mx my)"
        by blast
      from j(1) have "tracks ! j \<in> set tracks" by simp
      with False have "\<not> target_dist (tracks ! j) mx my < 100" by blast
      with res j show ?thesis by simp
    qed
    then show ?thesis
      using False by simp
  qed
qed


theorem identity_lock_selection_witness:
  "tracking_active (fst (tracker_init (byte_tracker_with three_candidates) (rows_to_tracks 1) ()
                           (90, 90, 20, 20)))
   \<and> tracked_id (fst (tracker_init (byte_tracker_with three_candidates) (rows_to_tracks 1) ()
                           (90, 90, 20, 20))) = Some 1
   \<and> tracking_active (fst (tracker_init (byte_tracker_with tied_candidates) (rows_to_tracks 1) ()
                           (90, 90, 20, 20)))
   \<and> tracked_id (fst (tracker_init (byte_tracker_with tied_candidates) (rows_to_tracks 1) ()
                           (90, 90, 20, 20))) = Some 1"
proof -
  let ?t1 = "\<lparr>tlwh = (95, 90, 20, 20), track_id = 1\<rparr>"
  let ?t2 = "\<lparr>tlwh = (150, 90, 20, 20), track_id = 2\<rparr>"
  let ?t3 = "\<lparr>tlwh = (240, 90, 20, 20), track_id = 3\<rparr>"
  let ?u2 = "\<lparr>tlwh = (85, 90, 20, 20), track_id = 2\<rparr>"
  have c: "box_centre (90, 90, 20, 20) = (100, 100)"
    by (simp add: box_centre_def)
  have d: "target_dist ?t1 100 100 = 5" "target_dist ?t2 100 100 = 60"
    "target_dist ?t3 100 100 = 150" "target_dist ?u2 100 100 = 5"
    by (simp_all add: target_dist_def)
  have first: "tracking_active (fst (tracker_init (byte_tracker_with three_candidates)
                   (rows_to_tracks 1) () (90, 90, 20, 20)))
     \<and> tracked_id (fst (tracker_init (byte_tracker_with three_candidates)
                   (rows_to_tracks 1) () (90, 90, 20, 20))) = Some 1"
  proof -
    let ?self = "byte_tracker_with three_candidates"
    let ?ts = "[?t1, ?t2, ?t3]"
    obtain self' printed where
      r: "tracker_init ?self (rows_to_tracks 1) () (90, 90, 20, 20) = (self', printed)"
      by (cases "tracker_init ?self (rows_to_tracks 1) () (90, 90, 20, 20)")
    have ty: "tracker_type ?self = ''BYTE''"
      and det: "detector ?self = Some (\<lambda>frame. three_candidates)"
      by (simp_all add: byte_tracker_with_def)
    have ne: "(\<lambda>frame. three_candidates) () \<noteq> []"
      by (simp add: three_candidates_def)
    have tr: "?ts = rows_to_tracks 1 (format_dets ((\<lambda>frame. three_candidates) ()))"
      by (simp add: three_candidates_def format_dets_def)
    have near: "\<exists>t \<in> set ?ts. target_dist t 100 100 < 100"
      using d by simp
    from identity_lock_selection [OF ty det ne tr c r] near
    have "tracking_active self'
          \<and> (\<exists>j < length ?ts. tracked_id self' = Some (track_id (?ts ! j))
                \<and> target_dist (?ts ! j) 100 100 < 100
                \<and> (\<forall>u \<in> set ?ts. target_dist (?ts ! j) 100 100 \<le> target_dist u 100 100)
                \<and> (\<forall>k < j. target_dist (?ts ! j) 100 100 < target_dist (?ts ! k) 100 100))"
      by presburger
    then obtain j where j: "tracking_active self'" "j < length ?ts"
      "tracked_id self' = Some (track_id (?ts ! j))"
      "\<forall>u \<in> set ?ts. target_dist (?ts ! j) 100 100 \<le> target_dist u 100 100"
      by blast
    from j(4) have le: "target_dist (?ts ! j) 100 100 \<le> target_dist ?t1 100 100"
      by simp
    from j(2) have "j = 0 \<or> j = 1 \<or> j = 2"
      by (simp add: less_Suc_eq eval_nat_numeral)
    moreover have "j \<noteq> 1" "j \<noteq> 2"
      using le d by auto
    ultimately have "j = 0"
      by blast
    with j(1,3) show ?thesis
      by (simp add: r)
  qed
  have tie: "tracking_active (fst (tracker_init (byte_tracker_with tied_candidates)
                   (rows_to_tracks 1) () (90, 90, 20, 20)))
     \<and> tracked_id (fst (tracker_init (byte_tracker_with tied_candidates)
                   (rows_to_tracks 1) () (90, 90, 20, 20))) = Some 1"
  proof -
    let ?self = "byte_tracker_with tied_candidates"
    let ?ts = "[?t1, ?u2]"
    obtain self' printed where
      r: "tracker_init ?self (rows_to_tracks 1) () (90, 90, 20, 20) = (self', printed)"
      by (cases "tracker_init ?self (rows_to_tracks 1) () (90, 90, 20, 20)")
    have ty: "tracker_type ?self = ''BYTE''"
      and det: "detector ?self = Some (\<lambda>frame. tied_candidates)"
      by (simp_all add: byte_tracker_with_def)
    have ne: "(\<lambda>frame. tied_candidates) () \<noteq> []"
      by (simp add: tied_candidates_def)
    have tr: "?ts = rows_to_tracks 1 (format_dets ((\<lambda>frame. tied_candidates) ()))"
      by (simp add: tied_candidates_def format_dets_def)
    have near: "\<exists>t \<in> set ?ts. target_dist t 100 100 < 100"
      using d by simp
    from identity_lock_selection [OF ty det ne tr c r] near
    have "tracking_active self'
          \<and> (\<exists>j < length ?ts. tracked_id self' = Some (track_id (?ts ! j))
                \<and> target_dist (?ts ! j) 100 100 < 100
                \<and> (\<forall>u \<in> set ?ts. target_dist (?ts ! j) 100 100 \<le> target_dist u 100 100)
                \<and> (\<forall>k < j. target_dist (?ts ! j) 100 100 < target_dist (?ts ! k) 100 100))"
      by presburger
    then obtain j where j: "tracking_active self'" "j < length ?ts"
      "tracked_id self' = Some (track_id (?ts ! j))"
      "\<forall>k < j. target_dist (?ts ! j) 100 100 < target_dist (?ts ! k) 100 100"
      by blast
    from j(2) have "j = 0 \<or> j = 1"
      by (simp add: less_Suc_eq eval_nat_numeral)
    moreover have "j \<noteq> 1"
    proof
      assume "j = 1"
      with j(4) have "target_dist (?ts ! 1) 100 100 < target_dist (?ts ! 0) 100 100"
        by blast
      with d show False by simp
    qed
    ultimately have "j = 0"
      by simp
    with j(1,3) show ?thesis
      by (simp add: r)
  qed
  from first tie show ?thesis
    by simp
qed

text \<open>
  C8 as stated, with acceptance at a distance of at most 100 pixels, fails: the code
  compares with \<open><\<close>, and a single candidate at exactly 100 pixels is rejected.
\<close>

theorem identity_lock_rejects_at_100px:
  "target_dist \<lparr>tlwh = (190, 90, 20, 20), track_id = 1\<rparr> 100 100 = 100
   \<and> \<not> tracking_active (fst (tracker_init (byte_tracker_with boundary_candidate)
                                 (rows_to_tracks 1) () (90, 90, 20, 20)))
   \<and> snd (tracker_init (byte_tracker_with boundary_candidate) (rows_to_tracks 1) () (90, 90, 20, 20))
       = [CouldNotMatch, TrackerInitialized ''BYTE'']"
  by (simp add: tracker_init_def byte_tracker_with_def boundary_candidate_def format_dets_def
      target_dist_def Let_def)


text \<open>
  When the detection pass returns no detection at all, \<open>init\<close> neither accepts nor
  rejects: tracking stays active although no identity has been chosen.
\<close>

lemma tracker_init_no_detections:
  "tracker_init (byte_tracker_with []) bt_update frame box
     = ((byte_tracker_with [])\<lparr>tracker := Some ByteTrackerObj, tracking_active := True\<rparr>,
        [TrackerInitialized ''BYTE''])"
  by (simp add: tracker_init_def byte_tracker_with_def format_dets_def create_tracker_def
      split_beta)

end
